theory Spec2Isabelle
  imports Main
begin

section \<open>Data model of the booking store\<close>

text \<open>
  The handlers of the rental marketplace share one document database. The model keeps
  the three collections the booking logic reads or writes: \<open>bookings\<close>, \<open>houses\<close>
  and \<open>users\<close>. An ObjectId is a natural number, a JavaScript \<open>Date\<close> is its
  number of milliseconds since the epoch. A collection is the list of its documents in
  insertion order, which is the order \<open>find\<close> and \<open>findOne\<close> return them in.

  Monetary fields (\<open>totalAmount\<close>, \<open>rentAmount\<close>, ...) are floating-point values in
  the source and are left out of the booking record, as are the per-action time and actor
  stamps (\<open>confirmedAt\<close>, \<open>confirmedBy\<close>, \<open>rejectedAt\<close>, ...). The notification
  and websocket-session collections are written only inside the handlers' notification
  blocks and are never read by the booking logic; they are not part of the state.

  A request is modelled after authentication and parsing: the token is the decoded payload
  (\<open>None\<close> when verification throws; the model answers 401 then, where the source
  answers 500 to an error other than a malformed or missing token), the body is the parsed
  JSON (\<open>None\<close> when \<open>JSON.parse\<close> throws), a field is \<open>None\<close> when it is
  absent. Date strings are valid and given by their instant, which lies in the range of a
  \<open>Date\<close>; \<open>duration\<close> and \<open>guests\<close> are JSON integers. Failures of the
  database itself are not modelled.
\<close>

type_synonym oid = nat
type_synonym date = int

datatype status = Pending | Confirmed | Active | Completed | Cancelled | Rejected

fun status_name :: "status \<Rightarrow> string" where
  "status_name Pending = ''pending''"
| "status_name Confirmed = ''confirmed''"
| "status_name Active = ''active''"
| "status_name Completed = ''completed''"
| "status_name Cancelled = ''cancelled''"
| "status_name Rejected = ''rejected''"

record history_entry =
  h_from :: status
  h_to :: status
  h_action :: string
  h_by :: oid
  h_reason :: "string option"
  h_notes :: "string option"
  h_at :: date

record booking =
  b_id :: oid
  houseId :: oid
  ownerId :: oid
  renterId :: oid
  checkInDate :: date
  checkOutDate :: date
  status :: status
  statusHistory :: "history_entry list"
  rejectionReason :: "string option"
  cancellationReason :: "string option"
  completionNotes :: "string option"
  updatedAt :: date

record view_entry =
  v_userId :: "oid option"
  v_viewedAt :: date
  v_userType :: string

record house =
  h_id :: oid
  h_ownerId :: oid
  h_approved :: bool
  h_isActive :: bool
  h_isAvailable :: bool
  h_price :: int
  h_views :: int
  h_viewedBy :: "view_entry list"

record db =
  bookings :: "booking list"
  houses :: "house list"
  users :: "oid list"

text \<open>The payload of a verified bearer token.\<close>

record decoded =
  userId :: oid
  role :: string

section \<open>Responses\<close>

text \<open>
  Every early \<open>return\<close> of a handler with a 4xx/5xx status code is a constructor of
  \<open>error\<close>. \<open>InvalidTransition\<close> carries the action and the stored status that the
  message of the source interpolates; \<open>DateConflict\<close> carries the
  \<open>conflictingBookings\<close> list; \<open>DatesUnavailable\<close> carries \<open>conflictingDates\<close>.
\<close>

record conflict =
  c_id :: oid
  c_checkIn :: date
  c_checkOut :: date
  c_status :: status

datatype error =
    Unauthorized
  | Forbidden
  | InvalidBookingId
  | InvalidAction
  | NotFound
  | InvalidTransition string status
  | DateConflict "conflict list"
  | MissingFields
  | PropertyNotAvailable
  | PastDate
  | DatesUnavailable date date
  | HouseIdRequired
  | InternalError

fun statusCode :: "error \<Rightarrow> nat" where
  "statusCode Unauthorized = 401"
| "statusCode Forbidden = 403"
| "statusCode InvalidBookingId = 400"
| "statusCode InvalidAction = 400"
| "statusCode NotFound = 404"
| "statusCode (InvalidTransition a s) = 400"
| "statusCode (DateConflict cs) = 409"
| "statusCode MissingFields = 400"
| "statusCode PropertyNotAvailable = 404"
| "statusCode PastDate = 400"
| "statusCode (DatesUnavailable i out) = 409"
| "statusCode HouseIdRequired = 400"
| "statusCode InternalError = 500"

text \<open>The \<open>error\<close> string of the state-transition failure:
  \<^verbatim>\<open>`Cannot ${action} booking with status: ${booking.status}`\<close>.\<close>

definition transition_message :: "string \<Rightarrow> status \<Rightarrow> string" where
  "transition_message a s = ''Cannot '' @ a @ '' booking with status: '' @ status_name s"

section \<open>Collection primitives\<close>

text \<open>\<open>findOneAndUpdate\<close> and \<open>updateOne\<close>: the first document matching the
  filter is updated, the others are untouched. \<open>updateMany\<close>: every matching
  document is updated.\<close>

fun findOneAndUpdate :: "('a \<Rightarrow> bool) \<Rightarrow> ('a \<Rightarrow> 'a) \<Rightarrow> 'a list \<Rightarrow> 'a list" where
  "findOneAndUpdate p f [] = []"
| "findOneAndUpdate p f (x # xs) = (if p x then f x # xs else x # findOneAndUpdate p f xs)"

definition updateMany :: "('a \<Rightarrow> bool) \<Rightarrow> ('a \<Rightarrow> 'a) \<Rightarrow> 'a list \<Rightarrow> 'a list" where
  "updateMany p f xs = map (\<lambda>x. if p x then f x else x) xs"

text \<open>\<open>insertOne\<close> on the bookings collection: the unique index on \<open>_id\<close>
  refuses a duplicate key.\<close>

definition insertOne :: "booking \<Rightarrow> booking list \<Rightarrow> booking list option" where
  "insertOne b bs = (if b_id b \<in> set (map b_id bs) then None else Some (bs @ [b]))"

section \<open>Owner bookings: PUT (accept, reject, cancel, complete)\<close>

record put_body =
  pb_action :: string
  pb_reason :: "string option"
  pb_notes :: "string option"

record put_request =
  pr_token :: "decoded option"
  pr_bookingId :: "oid option"
  pr_body :: "put_body option"

record put_ok =
  po_message :: string
  po_booking :: "booking option"
  po_action :: string
  po_newStatus :: status

definition validActions :: "string list" where
  "validActions = [''accept'', ''reject'', ''cancel'', ''complete'']"

fun stateTransition :: "status \<Rightarrow> string list" where
  "stateTransition Pending = [''accept'', ''reject'', ''cancel'']"
| "stateTransition Confirmed = [''cancel'', ''active'', ''complete'']"
| "stateTransition Active = [''complete'']"
| "stateTransition Completed = []"
| "stateTransition Cancelled = []"
| "stateTransition Rejected = []"

text \<open>The \<open>switch (action)\<close> that chooses the new status and the message.\<close>

definition newStatus :: "string \<Rightarrow> status \<Rightarrow> status" where
  "newStatus action old =
     (if action = ''accept'' then Confirmed
      else if action = ''reject'' then Rejected
      else if action = ''cancel'' then Cancelled
      else if action = ''complete'' then Completed
      else old)"

definition message_of :: "string \<Rightarrow> string" where
  "message_of action =
     (if action = ''accept'' then ''Booking request accepted''
      else if action = ''reject'' then ''Booking request rejected''
      else if action = ''cancel'' then ''Booking cancelled''
      else if action = ''complete'' then ''Booking marked as completed''
      else [])"

text \<open>\<open>updateFields\<close>, as the \<open>$set\<close> it is used in: built from the booking that
  \<open>findOne\<close> returned (its status and history), applied to the stored document.\<close>

definition updateFields :: "put_body \<Rightarrow> oid \<Rightarrow> date \<Rightarrow> booking \<Rightarrow> booking \<Rightarrow> booking" where
  "updateFields body owner now booking d =
     d\<lparr> status := newStatus (pb_action body) (status booking),
        statusHistory := statusHistory booking @
          [\<lparr> h_from = status booking,
             h_to = newStatus (pb_action body) (status booking),
             h_action = pb_action body,
             h_by = owner,
             h_reason = pb_reason body,
             h_notes = pb_notes body,
             h_at = now \<rparr>],
        rejectionReason :=
          (if pb_action body = ''reject'' then pb_reason body else rejectionReason d),
        cancellationReason :=
          (if pb_action body = ''cancel'' then pb_reason body else cancellationReason d),
        completionNotes :=
          (if pb_action body = ''complete'' then pb_notes body else completionNotes d),
        updatedAt := now \<rparr>"

text \<open>The query for confirmed or active bookings of the same house that meet the
  booking's dates (the 409 guard of the accept action).\<close>

definition overlappingBookings :: "oid \<Rightarrow> booking \<Rightarrow> booking list \<Rightarrow> booking list" where
  "overlappingBookings bid booking bs =
     filter (\<lambda>b. b_id b \<noteq> bid \<and> houseId b = houseId booking \<and>
                 (status b = Confirmed \<or> status b = Active) \<and>
                 checkInDate b \<le> checkOutDate booking \<and>
                 checkOutDate b \<ge> checkInDate booking) bs"

definition conflict_of :: "booking \<Rightarrow> conflict" where
  "conflict_of b = \<lparr> c_id = b_id b, c_checkIn = checkInDate b,
                     c_checkOut = checkOutDate b, c_status = status b \<rparr>"

text \<open>The write of the new status: a \<open>findOneAndUpdate\<close> whose filter names the
  booking id and the owner id.\<close>

definition update_booking ::
  "oid \<Rightarrow> oid \<Rightarrow> (booking \<Rightarrow> booking) \<Rightarrow> booking list \<Rightarrow> booking list" where
  "update_booking bid owner upd bs =
     findOneAndUpdate (\<lambda>b. b_id b = bid \<and> ownerId b = owner) upd bs"

text \<open>The \<open>$set\<close> of both cascades.\<close>

definition auto_reject :: "date \<Rightarrow> booking \<Rightarrow> booking" where
  "auto_reject now b =
     b\<lparr> status := Rejected,
        rejectionReason :=
          Some ''Dates no longer available (booking accepted for another renter)'',
        updatedAt := now \<rparr>"

text \<open>The pending bookings of the same house that meet the accepted booking's dates.\<close>

definition otherPending :: "oid \<Rightarrow> booking \<Rightarrow> booking \<Rightarrow> bool" where
  "otherPending bid booking b \<longleftrightarrow>
     b_id b \<noteq> bid \<and> houseId b = houseId booking \<and> status b = Pending \<and>
     checkInDate b \<le> checkOutDate booking \<and> checkOutDate b \<ge> checkInDate booking"

text \<open>The cascade inside the notification block: the pending bookings are read first
  and then updated by their ids.\<close>

definition cascade_by_ids :: "oid \<Rightarrow> booking \<Rightarrow> date \<Rightarrow> booking list \<Rightarrow> booking list" where
  "cascade_by_ids bid booking now bs =
     (let otherPendingBookings = filter (otherPending bid booking) bs
      in if length otherPendingBookings > 0
         then updateMany (\<lambda>b. b_id b \<in> set (map b_id otherPendingBookings)) (auto_reject now) bs
         else bs)"

text \<open>The cascade after the notification block: one \<open>updateMany\<close> with the query
  itself as filter.\<close>

definition cascade_by_query :: "oid \<Rightarrow> booking \<Rightarrow> date \<Rightarrow> booking list \<Rightarrow> booking list" where
  "cascade_by_query bid booking now bs = updateMany (otherPending bid booking) (auto_reject now) bs"

text \<open>
  The writes of a successful PUT, in the order of the source: the status update, the
  cascade inside the notification block, the cascade after it. \<open>notifyOk\<close> says
  whether the notification block reaches its cascade (any exception in that \<open>try\<close>
  block is caught and logged, and the handler goes on to the second cascade).
\<close>

definition put_writes ::
  "oid \<Rightarrow> oid \<Rightarrow> put_body \<Rightarrow> booking \<Rightarrow> date \<Rightarrow> bool \<Rightarrow> booking list \<Rightarrow> booking list" where
  "put_writes bid owner body booking now notifyOk bs =
     (let bs1 = update_booking bid owner (updateFields body owner now booking) bs;
          bs2 = (if notifyOk \<and> pb_action body = ''accept''
                 then cascade_by_ids bid booking now bs1 else bs1);
          bs3 = (if pb_action body = ''accept''
                 then cascade_by_query bid booking now bs2 else bs2)
      in bs3)"

text \<open>The PUT branch of the handler. \<open>now\<close> is the clock. \<open>po_booking\<close> is the
  document the status update returns (\<open>returnDocument: 'after'\<close>).\<close>

definition owner_bookings_put :: "put_request \<Rightarrow> date \<Rightarrow> bool \<Rightarrow> db \<Rightarrow> (error + put_ok) \<times> db" where
  "owner_bookings_put req now notifyOk st =
     (case pr_token req of
        None \<Rightarrow> (Inl Unauthorized, st)
      | Some tok \<Rightarrow>
          if role tok \<noteq> ''owner'' \<and> role tok \<noteq> ''admin'' then (Inl Forbidden, st)
          else
            (case pr_bookingId req of
               None \<Rightarrow> (Inl InvalidBookingId, st)
             | Some bid \<Rightarrow>
                 (case pr_body req of
                    None \<Rightarrow> (Inl InternalError, st)
                  | Some body \<Rightarrow>
                      if pb_action body \<notin> set validActions then (Inl InvalidAction, st)
                      else
                        (case find (\<lambda>b. b_id b = bid \<and> ownerId b = userId tok) (bookings st) of
                           None \<Rightarrow> (Inl NotFound, st)
                         | Some booking \<Rightarrow>
                             if pb_action body \<notin> set (stateTransition (status booking))
                             then (Inl (InvalidTransition (pb_action body) (status booking)), st)
                             else if pb_action body = ''accept'' \<and>
                                     length (overlappingBookings bid booking (bookings st)) > 0
                             then (Inl (DateConflict
                                     (map conflict_of (overlappingBookings bid booking (bookings st)))), st)
                             else
                               (Inr \<lparr> po_message = message_of (pb_action body),
                                      po_booking =
                                        find (\<lambda>b. b_id b = bid \<and> ownerId b = userId tok)
                                          (update_booking bid (userId tok)
                                             (updateFields body (userId tok) now booking) (bookings st)),
                                      po_action = pb_action body,
                                      po_newStatus = newStatus (pb_action body) (status booking) \<rparr>,
                                st\<lparr> bookings :=
                                      put_writes bid (userId tok) body booking now notifyOk (bookings st) \<rparr>)))))"

section \<open>Booking request: POST (rentzone-booking-request)\<close>

record create_body =
  cb_houseId :: "oid option"
  cb_moveInDate :: "date option"
  cb_duration :: "int option"
  cb_durationType :: "string option"

record create_request =
  cr_token :: "decoded option"
  cr_body :: "create_body option"

definition msPerDay :: int where
  "msPerDay = 86400000"

text \<open>\<open>d.setDate(d.getDate() + n)\<close> on a clock without daylight saving (the
  functions run in UTC).\<close>

definition addDays :: "date \<Rightarrow> int \<Rightarrow> date" where
  "addDays d n = d + n * msPerDay"

text \<open>
  A JavaScript \<open>Date\<close> holds a time value of at most \<open>8.64e15\<close> milliseconds on
  either side of the epoch, or is an Invalid Date (\<open>None\<close>). \<open>timeClip\<close> is the
  last step of every operation that sets a time value.
\<close>

definition maxTime :: int where
  "maxTime = 8640000000000000"

definition timeClip :: "int \<Rightarrow> date option" where
  "timeClip t = (if \<bar>t\<bar> \<le> maxTime then Some t else None)"

text \<open>\<open>d.setDate(d.getDate() + n)\<close> on a valid date \<open>d\<close>, in UTC: \<open>n\<close> days
  later, or an Invalid Date when that leaves the range.\<close>

definition setDate :: "date \<Rightarrow> int \<Rightarrow> date option" where
  "setDate d n = timeClip (d + n * msPerDay)"

text \<open>
  What the handler takes from the JavaScript library and from the database driver,
  parameters of the model:
  \<^item> \<open>parseInt\<close> on the JSON number \<open>duration\<close> (\<open>None\<close> is \<open>NaN\<close>; it is the
    identity on integers below \<open>1e21\<close> in size and reads the leading digits of the
    exponent notation above);
  \<^item> \<open>setMonth d n\<close>, which stands for \<open>d.setMonth(d.getMonth() + n)\<close> on a valid
    date (\<open>None\<close> is an Invalid Date);
  \<^item> \<open>bsonInvalidDate\<close>, what the BSON encoding of the driver does with an Invalid
    Date in a query or a document: the instant it writes in its place, or \<open>None\<close> when
    it throws, which the handler turns into a 500.
\<close>

record js_lib =
  parseInt :: "int \<Rightarrow> int option"
  setMonth :: "date \<Rightarrow> int \<Rightarrow> date option"
  bsonInvalidDate :: "date option"

definition bsonDate :: "js_lib \<Rightarrow> date option \<Rightarrow> date option" where
  "bsonDate lib d = (case d of Some t \<Rightarrow> Some t | None \<Rightarrow> bsonInvalidDate lib)"

text \<open>The \<open>switch (durationType)\<close> that computes \<open>checkOutDate\<close> from the valid
  date \<open>checkIn\<close>. With a duration that \<open>parseInt\<close> reads as \<open>NaN\<close> every branch
  gives an Invalid Date.\<close>

definition checkOut_of :: "js_lib \<Rightarrow> date \<Rightarrow> int \<Rightarrow> string option \<Rightarrow> date option" where
  "checkOut_of lib checkIn duration durationType =
     (case parseInt lib duration of
        None \<Rightarrow> None
      | Some n \<Rightarrow>
          if durationType = Some ''days'' then setDate checkIn n
          else if durationType = Some ''weeks'' then setDate checkIn (n * 7)
          else setMonth lib checkIn n)"

text \<open>The house lookup of both create handlers.\<close>

definition bookable_house :: "oid \<Rightarrow> house list \<Rightarrow> house option" where
  "bookable_house hid hs =
     find (\<lambda>h. h_id h = hid \<and> h_approved h \<and> h_isActive h \<and> h_isAvailable h) hs"

text \<open>The \<open>existingBooking\<close> query of both create handlers.\<close>

definition existingBooking :: "oid \<Rightarrow> date \<Rightarrow> date \<Rightarrow> booking list \<Rightarrow> booking option" where
  "existingBooking hid checkIn checkOut bs =
     find (\<lambda>b. houseId b = hid \<and>
               (status b = Pending \<or> status b = Confirmed \<or> status b = Active) \<and>
               checkInDate b \<le> checkOut \<and> checkOutDate b \<ge> checkIn) bs"

definition new_booking :: "oid \<Rightarrow> house \<Rightarrow> oid \<Rightarrow> date \<Rightarrow> date \<Rightarrow> date \<Rightarrow> booking" where
  "new_booking newId h renter checkIn checkOut now =
     \<lparr> b_id = newId, houseId = h_id h, ownerId = h_ownerId h, renterId = renter,
       checkInDate = checkIn, checkOutDate = checkOut, status = Pending,
       statusHistory = [], rejectionReason = None, cancellationReason = None,
       completionNotes = None, updatedAt = now \<rparr>"

text \<open>
  The handler. \<open>today\<close> is the clock with the time of day set to zero, \<open>now\<close> the
  clock, \<open>newId\<close> the ObjectId the driver generates for the inserted document.
  \<open>moveInDate\<close> is a valid date string, given by its instant, which lies in the range of
  a \<open>Date\<close>. A \<open>duration\<close> of \<open>0\<close> is falsy and counts as missing. The computed
  \<open>checkOutDate\<close> first meets the driver in the \<open>existingBooking\<close> query. A renter
  without a user document makes \<open>renter.firstName\<close> throw, which the handler turns into
  a 500.
\<close>

definition booking_request ::
  "js_lib \<Rightarrow> create_request \<Rightarrow> date \<Rightarrow> date \<Rightarrow> oid \<Rightarrow> db \<Rightarrow> (error + booking) \<times> db" where
  "booking_request lib req today now newId st =
     (case cr_token req of
        None \<Rightarrow> (Inl Unauthorized, st)
      | Some tok \<Rightarrow>
          if role tok \<noteq> ''renter'' then (Inl Forbidden, st)
          else
            (case cr_body req of
               None \<Rightarrow> (Inl InternalError, st)
             | Some body \<Rightarrow>
                 (case (cb_houseId body, cb_moveInDate body, cb_duration body) of
                    (Some hid, Some checkIn, Some duration) \<Rightarrow>
                      if duration = 0 then (Inl MissingFields, st)
                      else
                        (case bookable_house hid (houses st) of
                           None \<Rightarrow> (Inl PropertyNotAvailable, st)
                         | Some h \<Rightarrow>
                             (let computed = checkOut_of lib checkIn duration (cb_durationType body)
                              in if checkIn < today then (Inl PastDate, st)
                                 else
                                   (case bsonDate lib computed of
                                      None \<Rightarrow> (Inl InternalError, st)
                                    | Some checkOut \<Rightarrow>
                                        (case existingBooking hid checkIn checkOut (bookings st) of
                                           Some e \<Rightarrow>
                                             (Inl (DatesUnavailable (checkInDate e) (checkOutDate e)), st)
                                         | None \<Rightarrow>
                                             if userId tok \<notin> set (users st) then (Inl InternalError, st)
                                             else
                                               (case insertOne
                                                       (new_booking newId h (userId tok) checkIn checkOut now)
                                                       (bookings st) of
                                                  None \<Rightarrow> (Inl InternalError, st)
                                                | Some bs \<Rightarrow>
                                                    (Inr (new_booking newId h (userId tok) checkIn checkOut now),
                                                     st\<lparr> bookings := bs \<rparr>))))))
                  | _ \<Rightarrow> (Inl MissingFields, st))))"

section \<open>Renter bookings: POST (rentzone-user-profile)\<close>

record post_body =
  ub_houseId :: "oid option"
  ub_checkInDate :: "date option"
  ub_checkOutDate :: "date option"
  ub_guests :: "int option"

record post_request =
  ur_token :: "decoded option"
  ur_body :: "post_body option"

definition renter_bookings_post :: "post_request \<Rightarrow> date \<Rightarrow> oid \<Rightarrow> db \<Rightarrow> (error + booking) \<times> db" where
  "renter_bookings_post req now newId st =
     (case ur_token req of
        None \<Rightarrow> (Inl Unauthorized, st)
      | Some tok \<Rightarrow>
          if role tok \<noteq> ''renter'' then (Inl Forbidden, st)
          else
            (case ur_body req of
               None \<Rightarrow> (Inl InternalError, st)
             | Some body \<Rightarrow>
                 (case (ub_houseId body, ub_checkInDate body, ub_checkOutDate body, ub_guests body) of
                    (Some hid, Some checkIn, Some checkOut, Some guests) \<Rightarrow>
                      if guests = 0 then (Inl MissingFields, st)
                      else
                        (case bookable_house hid (houses st) of
                           None \<Rightarrow> (Inl PropertyNotAvailable, st)
                         | Some h \<Rightarrow>
                             (case existingBooking hid checkIn checkOut (bookings st) of
                                Some e \<Rightarrow> (Inl (DatesUnavailable (checkInDate e) (checkOutDate e)), st)
                              | None \<Rightarrow>
                                  (case insertOne (new_booking newId h (userId tok) checkIn checkOut now)
                                          (bookings st) of
                                     None \<Rightarrow> (Inl InternalError, st)
                                   | Some bs \<Rightarrow>
                                       (Inr (new_booking newId h (userId tok) checkIn checkOut now),
                                        st\<lparr> bookings := bs \<rparr>))))
                  | _ \<Rightarrow> (Inl MissingFields, st))))"

section \<open>House details: GET, with the availability calendar\<close>

record get_request =
  gr_houseId :: "oid option"
  gr_token :: "decoded option"

record cal_entry =
  ce_date :: date
  ce_available :: bool
  ce_price :: int

record get_ok =
  go_calendar :: "cal_entry list"
  go_bookedDates :: "(date \<times> date) list"
  go_views :: int

text \<open>The update of the first query: \<open>$inc: { views: 1 }\<close> and a \<open>$push\<close> to
  \<open>viewedBy\<close>.\<close>

definition record_view :: "decoded option \<Rightarrow> date \<Rightarrow> house \<Rightarrow> house" where
  "record_view tok now h =
     h\<lparr> h_views := h_views h + 1,
        h_viewedBy := h_viewedBy h @
          [\<lparr> v_userId = map_option userId tok, v_viewedAt = now,
             v_userType = (case tok of None \<Rightarrow> ''guest'' | Some t \<Rightarrow> role t) \<rparr>] \<rparr>"

text \<open>The \<open>bookedDates\<close> query, with its projection to the two dates.\<close>

definition bookedDates :: "oid \<Rightarrow> date \<Rightarrow> date \<Rightarrow> booking list \<Rightarrow> (date \<times> date) list" where
  "bookedDates hid today ninetyDaysLater bs =
     map (\<lambda>b. (checkInDate b, checkOutDate b))
       (filter (\<lambda>b. houseId b = hid \<and> (status b = Confirmed \<or> status b = Active) \<and>
                    checkInDate b \<le> ninetyDaysLater \<and> checkOutDate b \<ge> today) bs)"

definition isBooked :: "(date \<times> date) list \<Rightarrow> date \<Rightarrow> bool" where
  "isBooked booked currentDate =
     list_ex (\<lambda>(checkIn, checkOut). currentDate \<ge> checkIn \<and> currentDate \<le> checkOut) booked"

text \<open>The \<open>while (currentDate <= ninetyDaysLater)\<close> loop; \<open>cal\<close> is the array the
  loop pushes to.\<close>

function availabilityCalendar ::
  "(date \<times> date) list \<Rightarrow> int \<Rightarrow> date \<Rightarrow> date \<Rightarrow> cal_entry list \<Rightarrow> cal_entry list" where
  "availabilityCalendar booked price currentDate ninetyDaysLater cal =
     (if currentDate \<le> ninetyDaysLater
      then availabilityCalendar booked price (addDays currentDate 1) ninetyDaysLater
             (cal @ [\<lparr> ce_date = currentDate,
                       ce_available = \<not> isBooked booked currentDate,
                       ce_price = price \<rparr>])
      else cal)"
  by pat_completeness auto
termination
  by (relation "measure (\<lambda>(booked, price, currentDate, ninetyDaysLater, cal).
                  nat (ninetyDaysLater - currentDate + 1))")
     (auto simp: addDays_def msPerDay_def)

declare availabilityCalendar.simps [simp del]

text \<open>
  The handler. The two clock reads \<open>today\<close> and \<open>ninetyDaysLater\<close> of the source
  happen in the same millisecond: \<open>ninetyDaysLater = addDays now 90\<close>. A missing
  and a malformed house id are both \<open>None\<close>. The response carries the first 30 entries
  of the calendar.
\<close>

definition house_details_get :: "get_request \<Rightarrow> date \<Rightarrow> db \<Rightarrow> (error + get_ok) \<times> db" where
  "house_details_get req now st =
     (case gr_houseId req of
        None \<Rightarrow> (Inl HouseIdRequired, st)
      | Some hid \<Rightarrow>
          (let hs = findOneAndUpdate (\<lambda>h. h_id h = hid) (record_view (gr_token req) now) (houses st);
               st1 = st\<lparr> houses := hs \<rparr>
           in case find (\<lambda>h. h_id h = hid) hs of
                None \<Rightarrow> (Inl NotFound, st1)
              | Some h \<Rightarrow>
                  if (case gr_token req of None \<Rightarrow> True
                      | Some tok \<Rightarrow> role tok \<noteq> ''owner'' \<and> role tok \<noteq> ''admin'') \<and>
                     (\<not> h_approved h \<or> \<not> h_isActive h \<or> \<not> h_isAvailable h)
                  then (Inl PropertyNotAvailable, st1)
                  else
                    (let today = now;
                         ninetyDaysLater = addDays now 90;
                         booked = bookedDates hid today ninetyDaysLater (bookings st1);
                         cal = availabilityCalendar booked (h_price h) today ninetyDaysLater []
                     in (Inr \<lparr> go_calendar = take 30 cal,
                               go_bookedDates = booked,
                               go_views = h_views h \<rparr>, st1))))"

text \<open>The calendar of a response; an error response carries none.\<close>

definition calendar_of :: "(error + get_ok) \<times> db \<Rightarrow> cal_entry list" where
  "calendar_of r = (case fst r of Inl e \<Rightarrow> [] | Inr ok \<Rightarrow> go_calendar ok)"

text \<open>The entry the loop pushes for one day.\<close>

definition cal_entry_at :: "(date \<times> date) list \<Rightarrow> int \<Rightarrow> date \<Rightarrow> cal_entry" where
  "cal_entry_at booked price d =
     \<lparr> ce_date = d, ce_available = \<not> isBooked booked d, ce_price = price \<rparr>"

section \<open>The booking invariant and the reachable stores\<close>

text \<open>A booking occupies its house while it is confirmed or active.\<close>

definition occupying :: "booking \<Rightarrow> bool" where
  "occupying b \<longleftrightarrow> status b = Confirmed \<or> status b = Active"

definition no_double_booking :: "booking list \<Rightarrow> bool" where
  "no_double_booking bs \<longleftrightarrow>
     (\<forall>b1 \<in> set bs. \<forall>b2 \<in> set bs.
        b_id b1 \<noteq> b_id b2 \<and> houseId b1 = houseId b2 \<and> occupying b1 \<and> occupying b2 \<longrightarrow>
        \<not> (checkInDate b1 < checkOutDate b2 \<and> checkInDate b2 < checkOutDate b1))"

definition store_inv :: "db \<Rightarrow> bool" where
  "store_inv st \<longleftrightarrow> distinct (map b_id (bookings st)) \<and> no_double_booking (bookings st)"

text \<open>What one write leaves of a booking: identity, house, owner and dates stay; the
  booking named by \<open>target\<close> is the only one that may start to occupy its house.\<close>

definition keeps :: "booking \<Rightarrow> booking \<Rightarrow> bool" where
  "keeps b b' \<longleftrightarrow> b_id b' = b_id b \<and> houseId b' = houseId b \<and> ownerId b' = ownerId b \<and>
     checkInDate b' = checkInDate b \<and> checkOutDate b' = checkOutDate b"

definition step_rel :: "oid option \<Rightarrow> booking \<Rightarrow> booking \<Rightarrow> bool" where
  "step_rel target b b' \<longleftrightarrow>
     keeps b b' \<and> (occupying b' \<longrightarrow> occupying b \<or> target = Some (b_id b))"

text \<open>
  The stores that sequences of requests lead to: from any collection of bookings with
  unique ids of which none is confirmed or active, by the two handlers that create a
  booking and by the owner's PUT with any action. Every request may succeed or fail.
\<close>

inductive reachable :: "db \<Rightarrow> bool" where
  init: "distinct (map b_id bs) \<Longrightarrow>
         \<forall>b \<in> set bs. status b \<noteq> Confirmed \<and> status b \<noteq> Active \<Longrightarrow>
         reachable \<lparr> bookings = bs, houses = hs, users = us \<rparr>"
| request: "reachable st \<Longrightarrow>
         reachable (snd (booking_request lib creq today now newId st))"
| post: "reachable st \<Longrightarrow> reachable (snd (renter_bookings_post ureq now newId st))"
| put: "reachable st \<Longrightarrow> reachable (snd (owner_bookings_put preq now notifyOk st))"

section \<open>Example data\<close>

definition on_day :: "int \<Rightarrow> date" where
  "on_day n = addDays 0 n"

text \<open>A booking of house 1 (owner 7) from day \<open>dIn\<close> to day \<open>dOut\<close>.\<close>

definition ex_booking :: "oid \<Rightarrow> oid \<Rightarrow> int \<Rightarrow> int \<Rightarrow> status \<Rightarrow> booking" where
  "ex_booking i renter dIn dOut s =
     \<lparr> b_id = i, houseId = 1, ownerId = 7, renterId = renter,
       checkInDate = on_day dIn, checkOutDate = on_day dOut, status = s,
       statusHistory = [], rejectionReason = None, cancellationReason = None,
       completionNotes = None, updatedAt = 0 \<rparr>"

definition ex_house :: house where
  "ex_house = \<lparr> h_id = 1, h_ownerId = 7, h_approved = True, h_isActive = True,
                h_isAvailable = True, h_price = 1000, h_views = 0, h_viewedBy = [] \<rparr>"

definition ex_db :: "booking list \<Rightarrow> db" where
  "ex_db bs = \<lparr> bookings = bs, houses = [ex_house], users = [20, 21, 22, 23] \<rparr>"

definition ex_body :: "string \<Rightarrow> put_body" where
  "ex_body action = \<lparr> pb_action = action, pb_reason = None, pb_notes = None \<rparr>"

definition ex_put :: "oid \<Rightarrow> string \<Rightarrow> oid \<Rightarrow> string \<Rightarrow> put_request" where
  "ex_put caller r bid action =
     \<lparr> pr_token = Some \<lparr> userId = caller, role = r \<rparr>,
       pr_bookingId = Some bid,
       pr_body = Some (ex_body action) \<rparr>"

text \<open>The history entry of an accept by owner 7 at time \<open>t\<close>.\<close>

definition ex_accepted_at :: "date \<Rightarrow> history_entry" where
  "ex_accepted_at t = \<lparr> h_from = Pending, h_to = Confirmed, h_action = ''accept'', h_by = 7,
                         h_reason = None, h_notes = None, h_at = t \<rparr>"

text \<open>A guest looks at house 1.\<close>

definition ex_get :: get_request where
  "ex_get = \<lparr> gr_houseId = Some 1, gr_token = None \<rparr>"

text \<open>Renter 20 asks for house 1: from day 10 for \<open>duration\<close> days, and from day
  \<open>dIn\<close> to day \<open>dOut\<close>.\<close>

definition ex_create :: "int \<Rightarrow> create_request" where
  "ex_create duration =
     \<lparr> cr_token = Some \<lparr> userId = 20, role = ''renter'' \<rparr>,
       cr_body = Some \<lparr> cb_houseId = Some 1, cb_moveInDate = Some (on_day 10),
                         cb_duration = Some duration, cb_durationType = Some ''days'' \<rparr> \<rparr>"

definition ex_post :: "int \<Rightarrow> int \<Rightarrow> post_request" where
  "ex_post dIn dOut =
     \<lparr> ur_token = Some \<lparr> userId = 20, role = ''renter'' \<rparr>,
       ur_body = Some \<lparr> ub_houseId = Some 1, ub_checkInDate = Some (on_day dIn),
                         ub_checkOutDate = Some (on_day dOut), ub_guests = Some 2 \<rparr> \<rparr>"

text \<open>An instance of the library: \<open>parseInt\<close> as it is on integers below \<open>1e21\<close>
  in size, an Invalid Date written as the epoch, and months of 30 days, which no example
  reaches (the examples count in days).\<close>

definition ex_lib :: js_lib where
  "ex_lib = \<lparr> parseInt = Some, setMonth = (\<lambda>d n. timeClip (d + 30 * n * msPerDay)),
              bsonInvalidDate = Some 0 \<rparr>"

text \<open>Two pending requests for disjoint dates, accepted one after the other.\<close>

definition ex_two_accepted :: db where
  "ex_two_accepted =
     snd (owner_bookings_put (ex_put 7 ''owner'' 2 ''accept'') 2 True
       (snd (owner_bookings_put (ex_put 7 ''owner'' 1 ''accept'') 1 True
          (ex_db [ex_booking 1 20 5 10 Pending, ex_booking 2 21 12 20 Pending]))))"

section \<open>Basic facts about the collection primitives\<close>

lemmas create_defs = booking_request_def renter_bookings_post_def checkOut_of_def bookable_house_def
  existingBooking_def new_booking_def insertOne_def setDate_def timeClip_def maxTime_def bsonDate_def
  ex_create_def ex_post_def ex_lib_def

lemmas ex_defs = ex_db_def ex_booking_def ex_put_def ex_body_def ex_accepted_at_def
  ex_house_def on_day_def addDays_def msPerDay_def

lemmas put_defs = owner_bookings_put_def validActions_def overlappingBookings_def
  put_writes_def update_booking_def updateFields_def newStatus_def cascade_by_ids_def
  cascade_by_query_def updateMany_def otherPending_def auto_reject_def message_of_def
  conflict_of_def

lemma find_SomeD: "find p xs = Some x \<Longrightarrow> x \<in> set xs \<and> p x"
  by (induction xs) (auto split: if_splits)

lemma find_by_id:
  assumes "distinct (map b_id bs)" "b \<in> set bs"
  shows "find (\<lambda>x. b_id x = b_id b \<and> ownerId x = ownerId b) bs = Some b"
  using assms by (induction bs) (auto simp: image_iff)

lemma findOneAndUpdate_rel:
  assumes "\<And>x. x \<in> set xs \<Longrightarrow> p x \<Longrightarrow> R x (f x)" and "\<And>x. R x x"
  shows "list_all2 R xs (findOneAndUpdate p f xs)"
  using assms(1)
proof (induction xs)
  case Nil
  then show ?case by simp
next
  case (Cons x xs)
  then show ?case using assms(2) by (auto simp: list_all2_refl)
qed

lemma updateMany_rel:
  assumes "\<And>x. x \<in> set xs \<Longrightarrow> p x \<Longrightarrow> R x (f x)" and "\<And>x. R x x"
  shows "list_all2 R xs (updateMany p f xs)"
  unfolding updateMany_def list_all2_map2 list_all2_same
  using assms by auto

lemma list_all2_in_set2:
  "list_all2 R xs ys \<Longrightarrow> y \<in> set ys \<Longrightarrow> \<exists>x \<in> set xs. R x y"
  by (induction rule: list_all2_induct) auto

section \<open>Failed status updates\<close>

text \<open>
  Claim C10. Every status update of the owner's PUT (accept, reject, cancel, complete) is
  scoped to the caller's own bookings: when the store holds no booking with the requested
  id whose \<open>ownerId\<close> is the caller's user id, the request fails with the 404
  "Booking not found" and the store is unchanged. The caller's role may be \<open>owner\<close> or
  \<open>admin\<close>: an admin is held to the same lookup.
\<close>

theorem put_scoped_to_owner:
  assumes "pr_token req = Some tok"
    and "role tok = ''owner'' \<or> role tok = ''admin''"
    and "pr_bookingId req = Some bid"
    and "pr_body req = Some body"
    and "pb_action body \<in> set validActions"
    and "\<not> (\<exists>b \<in> set (bookings st). b_id b = bid \<and> ownerId b = userId tok)"
  shows "owner_bookings_put req now notifyOk st = (Inl NotFound, st) \<and> statusCode NotFound = 404"
proof -
  have "find (\<lambda>b. b_id b = bid \<and> ownerId b = userId tok) (bookings st) = None"
    using assms(6) by (simp add: find_None_iff)
  then show ?thesis
    using assms(1-5) by (auto simp: owner_bookings_put_def)
qed

theorem put_scoped_to_owner_witness:
  "pr_token (ex_put 9 ''admin'' 1 ''cancel'') = Some \<lparr> userId = 9, role = ''admin'' \<rparr> \<and>
   pr_bookingId (ex_put 9 ''admin'' 1 ''cancel'') = Some 1 \<and>
   ''cancel'' \<in> set validActions \<and>
   \<not> (\<exists>b \<in> set (bookings (ex_db [ex_booking 1 20 5 10 Pending])). b_id b = 1 \<and> ownerId b = 9) \<and>
   owner_bookings_put (ex_put 9 ''admin'' 1 ''cancel'') 0 True (ex_db [ex_booking 1 20 5 10 Pending])
     = (Inl NotFound, ex_db [ex_booking 1 20 5 10 Pending])"
  using put_scoped_to_owner [of "ex_put 9 ''admin'' 1 ''cancel''" "\<lparr> userId = 9, role = ''admin'' \<rparr>" 1
      "ex_body ''cancel''"
      "ex_db [ex_booking 1 20 5 10 Pending]" 0 True]
  by (simp add: ex_defs validActions_def)

text \<open>
  Claim C6. An owner (or admin) who tries to accept one of their bookings whose status is
  not \<open>pending\<close> gets the 400 error of the state-transition check, whose message names
  the attempted action and the current status, and the store is returned unchanged.
\<close>

theorem accept_non_pending_fails:
  assumes "pr_token req = Some tok"
    and "role tok = ''owner'' \<or> role tok = ''admin''"
    and "pr_body req = Some body"
    and "pb_action body = ''accept''"
    and "distinct (map b_id (bookings st))"
    and "booking \<in> set (bookings st)"
    and "ownerId booking = userId tok"
    and "pr_bookingId req = Some (b_id booking)"
    and "status booking \<noteq> Pending"
  shows "owner_bookings_put req now notifyOk st =
           (Inl (InvalidTransition ''accept'' (status booking)), st) \<and>
         transition_message ''accept'' (status booking) =
           ''Cannot accept booking with status: '' @ status_name (status booking)"
proof -
  have "''accept'' \<notin> set (stateTransition (status booking))"
    using assms(9) by (cases "status booking") simp_all
  moreover have "find (\<lambda>b. b_id b = b_id booking \<and> ownerId b = userId tok) (bookings st) = Some booking"
    using find_by_id [OF assms(5,6)] assms(7) by simp
  ultimately show ?thesis
    using assms(1-4,8) by (auto simp: owner_bookings_put_def validActions_def transition_message_def)
qed

theorem accept_non_pending_fails_witness:
  "distinct (map b_id (bookings (ex_db [ex_booking 1 20 5 10 Cancelled]))) \<and>
   ex_booking 1 20 5 10 Cancelled \<in> set (bookings (ex_db [ex_booking 1 20 5 10 Cancelled])) \<and>
   ownerId (ex_booking 1 20 5 10 Cancelled) = 7 \<and>
   status (ex_booking 1 20 5 10 Cancelled) \<noteq> Pending \<and>
   owner_bookings_put (ex_put 7 ''owner'' 1 ''accept'') 0 True (ex_db [ex_booking 1 20 5 10 Cancelled])
     = (Inl (InvalidTransition ''accept'' Cancelled), ex_db [ex_booking 1 20 5 10 Cancelled]) \<and>
   transition_message ''accept'' Cancelled = ''Cannot accept booking with status: cancelled''"
  using accept_non_pending_fails [of "ex_put 7 ''owner'' 1 ''accept''" "\<lparr> userId = 7, role = ''owner'' \<rparr>"
      "ex_body ''accept''"
      "ex_db [ex_booking 1 20 5 10 Cancelled]" "ex_booking 1 20 5 10 Cancelled" 0 True]
  by (simp add: ex_defs)

section \<open>No double booking\<close>

lemma step_rel_refl: "step_rel t b b"
  by (simp add: step_rel_def keeps_def)

lemma step_rel_trans: "step_rel t a b \<Longrightarrow> step_rel t b c \<Longrightarrow> step_rel t a c"
  by (auto simp: step_rel_def keeps_def)

lemma step_rel_list_trans:
  "list_all2 (step_rel t) as bs \<Longrightarrow> list_all2 (step_rel t) bs cs \<Longrightarrow> list_all2 (step_rel t) as cs"
  by (rule list_all2_trans [OF step_rel_trans])

lemma step_rel_ids: "list_all2 (step_rel t) bs bs' \<Longrightarrow> map b_id bs' = map b_id bs"
  by (induction rule: list_all2_induct) (auto simp: step_rel_def keeps_def)

text \<open>A step in which no booking starts to occupy its house keeps the invariant.\<close>

lemma no_double_booking_step:
  assumes inv: "no_double_booking bs"
    and rel: "list_all2 (step_rel None) bs bs'"
  shows "no_double_booking bs'"
  unfolding no_double_booking_def
proof (intro ballI impI)
  fix b1' b2'
  assume m: "b1' \<in> set bs'" "b2' \<in> set bs'"
    and h: "b_id b1' \<noteq> b_id b2' \<and> houseId b1' = houseId b2' \<and> occupying b1' \<and> occupying b2'"
  from rel m obtain b1 b2 where
    o: "b1 \<in> set bs" "step_rel None b1 b1'" "b2 \<in> set bs" "step_rel None b2 b2'"
    by (meson list_all2_in_set2)
  with h inv show "\<not> (checkInDate b1' < checkOutDate b2' \<and> checkInDate b2' < checkOutDate b1')"
    unfolding no_double_booking_def step_rel_def keeps_def by (metis option.simps(3))
qed

text \<open>A step in which one booking is confirmed keeps the invariant when the 409 guard
  found no confirmed or active booking that meets its dates.\<close>

lemma no_double_booking_accept:
  assumes inv: "no_double_booking bs"
    and dist: "distinct (map b_id bs)"
    and tgt: "booking \<in> set bs" "b_id booking = bid"
    and free: "overlappingBookings bid booking bs = []"
    and rel: "list_all2 (step_rel (Some bid)) bs bs'"
  shows "no_double_booking bs'"
  unfolding no_double_booking_def
proof (intro ballI impI)
  fix b1' b2'
  assume m: "b1' \<in> set bs'" "b2' \<in> set bs'"
    and h: "b_id b1' \<noteq> b_id b2' \<and> houseId b1' = houseId b2' \<and> occupying b1' \<and> occupying b2'"
  from rel m obtain b1 b2 where
    o: "b1 \<in> set bs" "step_rel (Some bid) b1 b1'" "b2 \<in> set bs" "step_rel (Some bid) b2 b2'"
    by (meson list_all2_in_set2)
  have uniq: "\<And>b. b \<in> set bs \<Longrightarrow> b_id b = bid \<Longrightarrow> b = booking"
    using dist tgt by (metis distinct_map inj_on_eq_iff)
  have clear: "\<And>b. b \<in> set bs \<Longrightarrow> b_id b \<noteq> bid \<Longrightarrow> houseId b = houseId booking \<Longrightarrow> occupying b
      \<Longrightarrow> \<not> (checkInDate b \<le> checkOutDate booking \<and> checkOutDate b \<ge> checkInDate booking)"
    using free by (auto simp: overlappingBookings_def occupying_def filter_empty_conv)
  have k: "keeps b1 b1'" "keeps b2 b2'" using o by (simp_all add: step_rel_def)
  have ne: "b_id b1 \<noteq> b_id b2" and hs: "houseId b1 = houseId b2"
    using h k by (simp_all add: keeps_def)
  consider (old) "occupying b1" "occupying b2"
    | (first) "b_id b1 = bid" "occupying b2"
    | (second) "b_id b2 = bid" "occupying b1"
    using o h ne by (auto simp: step_rel_def)
  then have "\<not> (checkInDate b1 < checkOutDate b2 \<and> checkInDate b2 < checkOutDate b1)"
  proof cases
    case old
    then show ?thesis using inv o ne hs unfolding no_double_booking_def by blast
  next
    case first
    then have "b1 = booking" using uniq o by blast
    then show ?thesis using clear [of b2] o first ne hs by auto
  next
    case second
    then have "b2 = booking" using uniq o by blast
    then show ?thesis using clear [of b1] o second ne hs by auto
  qed
  then show "\<not> (checkInDate b1' < checkOutDate b2' \<and> checkInDate b2' < checkOutDate b1')"
    using k by (simp add: keeps_def)
qed

lemma update_booking_rel_accept:
  "list_all2 (step_rel (Some bid)) bs (update_booking bid owner (updateFields body owner now booking) bs)"
  unfolding update_booking_def
  by (rule findOneAndUpdate_rel) (simp_all add: step_rel_def keeps_def updateFields_def)

lemma update_booking_rel_other:
  assumes "pb_action body \<in> set validActions" "pb_action body \<noteq> ''accept''"
  shows "list_all2 (step_rel None) bs (update_booking bid owner (updateFields body owner now booking) bs)"
  unfolding update_booking_def
  by (rule findOneAndUpdate_rel)
    (use assms in \<open>auto simp: step_rel_def keeps_def updateFields_def validActions_def
       newStatus_def occupying_def\<close>)

lemma cascade_by_ids_rel: "list_all2 (step_rel t) bs (cascade_by_ids bid booking now bs)"
  unfolding cascade_by_ids_def Let_def
  by (auto intro!: updateMany_rel
      simp: list_all2_same step_rel_def keeps_def auto_reject_def occupying_def)

lemma cascade_by_query_rel: "list_all2 (step_rel t) bs (cascade_by_query bid booking now bs)"
  unfolding cascade_by_query_def
  by (auto intro!: updateMany_rel simp: step_rel_def keeps_def auto_reject_def occupying_def)

lemma put_writes_rel_accept:
  "list_all2 (step_rel (Some bid)) bs (put_writes bid owner body booking now notifyOk bs)"
proof -
  let ?R = "list_all2 (step_rel (Some bid))"
  let ?bs1 = "update_booking bid owner (updateFields body owner now booking) bs"
  let ?bs2 = "if notifyOk \<and> pb_action body = ''accept''
              then cascade_by_ids bid booking now ?bs1 else ?bs1"
  let ?bs3 = "if pb_action body = ''accept'' then cascade_by_query bid booking now ?bs2 else ?bs2"
  have 1: "?R bs ?bs1" by (rule update_booking_rel_accept)
  have "?R ?bs1 ?bs2" by (simp add: cascade_by_ids_rel list_all2_same step_rel_refl)
  with 1 have 2: "?R bs ?bs2" by (rule step_rel_list_trans)
  have "?R ?bs2 ?bs3" by (simp add: cascade_by_query_rel list_all2_same step_rel_refl)
  with 2 have "?R bs ?bs3" by (rule step_rel_list_trans)
  then show ?thesis by (simp add: put_writes_def Let_def)
qed

lemma put_writes_rel_other:
  assumes "pb_action body \<in> set validActions" "pb_action body \<noteq> ''accept''"
  shows "list_all2 (step_rel None) bs (put_writes bid owner body booking now notifyOk bs)"
  unfolding put_writes_def Let_def using assms by (simp add: update_booking_rel_other)

text \<open>What a PUT does to the store: nothing, or a step of one of the two kinds.\<close>

lemma put_step:
  assumes "owner_bookings_put req now notifyOk st = (r, st')"
  shows "st' = st \<or>
     (houses st' = houses st \<and> users st' = users st \<and>
      (list_all2 (step_rel None) (bookings st) (bookings st') \<or>
       (\<exists>bid booking. booking \<in> set (bookings st) \<and> b_id booking = bid \<and>
           overlappingBookings bid booking (bookings st) = [] \<and>
           list_all2 (step_rel (Some bid)) (bookings st) (bookings st'))))"
proof -
  define P where "P = (\<lambda>st'. st' = st \<or>
     (houses st' = houses st \<and> users st' = users st \<and>
      (list_all2 (step_rel None) (bookings st) (bookings st') \<or>
       (\<exists>bid booking. booking \<in> set (bookings st) \<and> b_id booking = bid \<and>
           overlappingBookings bid booking (bookings st) = [] \<and>
           list_all2 (step_rel (Some bid)) (bookings st) (bookings st')))))"
  have same: "P st" by (simp add: P_def)
  have key: "P (st\<lparr> bookings := put_writes bid owner body booking now notifyOk (bookings st) \<rparr>)"
    if f: "find (\<lambda>b. b_id b = bid \<and> ownerId b = owner) (bookings st) = Some booking"
      and v: "pb_action body \<in> set validActions"
      and c: "pb_action body = ''accept'' \<Longrightarrow> overlappingBookings bid booking (bookings st) = []"
    for bid owner body booking
  proof (cases "pb_action body = ''accept''")
    case True
    have "booking \<in> set (bookings st)" "b_id booking = bid"
      using find_SomeD [OF f] by simp_all
    then show ?thesis
      unfolding P_def
      using c [OF True] put_writes_rel_accept [of bid "bookings st" owner body booking now notifyOk]
      by auto
  next
    case n: False
    show ?thesis
      unfolding P_def
      using put_writes_rel_other [OF v n, of "bookings st" bid owner booking now notifyOk]
      by simp
  qed
  have "P st'"
    using assms same
    by (auto simp: owner_bookings_put_def split: option.splits if_splits intro!: key)
  then show ?thesis by (simp add: P_def)
qed

lemma insertOne_inv:
  assumes "store_inv st" "insertOne b (bookings st) = Some bs" "status b = Pending"
  shows "store_inv (st\<lparr> bookings := bs \<rparr>)"
proof -
  have bs: "bs = bookings st @ [b]" and fresh: "b_id b \<notin> b_id ` set (bookings st)"
    using assms(2) by (auto simp: insertOne_def split: if_splits)
  have "\<not> occupying b" using assms(3) by (simp add: occupying_def)
  then have "no_double_booking bs"
    using assms(1) unfolding bs store_inv_def no_double_booking_def by auto
  moreover have "distinct (map b_id bs)"
    using assms(1) fresh unfolding bs store_inv_def by simp
  ultimately show ?thesis by (simp add: store_inv_def)
qed

lemma booking_request_inv:
  assumes "store_inv st"
  shows "store_inv (snd (booking_request lib req today now newId st))"
  using assms
  by (auto simp: booking_request_def Let_def new_booking_def
        split: option.splits if_splits intro!: insertOne_inv)

lemma renter_bookings_post_inv:
  assumes "store_inv st"
  shows "store_inv (snd (renter_bookings_post req now newId st))"
  using assms
  by (auto simp: renter_bookings_post_def Let_def new_booking_def
        split: option.splits if_splits intro!: insertOne_inv)

lemma owner_bookings_put_inv:
  assumes "store_inv st"
  shows "store_inv (snd (owner_bookings_put req now notifyOk st))"
proof -
  obtain r st' where e: "owner_bookings_put req now notifyOk st = (r, st')"
    by (cases "owner_bookings_put req now notifyOk st")
  from put_step [OF e] assms have "store_inv st'"
    unfolding store_inv_def
    by (auto dest: step_rel_ids no_double_booking_step intro: no_double_booking_accept)
  then show ?thesis by (simp add: e)
qed

lemma reachable_inv: "reachable st \<Longrightarrow> store_inv st"
proof (induction rule: reachable.induct)
  case (init bs hs us)
  then show ?case by (auto simp: store_inv_def no_double_booking_def occupying_def)
next
  case (request st lib creq today now newId)
  then show ?case by (simp add: booking_request_inv)
next
  case (post st ureq now newId)
  then show ?case by (simp add: renter_bookings_post_inv)
next
  case (put st preq now notifyOk)
  then show ?case by (simp add: owner_bookings_put_inv)
qed

text \<open>
  Claim C2. In every store reached from bookings of which none is confirmed or active, by
  any sequence of create-booking requests and of accept, reject, cancel and complete
  requests, two different bookings of the same house that are both confirmed or active
  never overlap: not (\<open>b1.checkIn < b2.checkOut\<close> and \<open>b2.checkIn < b1.checkOut\<close>).
\<close>

theorem confirmed_bookings_never_overlap:
  assumes "reachable st"
    and "b1 \<in> set (bookings st)" "b2 \<in> set (bookings st)" "b1 \<noteq> b2"
    and "houseId b1 = houseId b2"
    and "status b1 \<in> {Confirmed, Active}" "status b2 \<in> {Confirmed, Active}"
  shows "\<not> (checkInDate b1 < checkOutDate b2 \<and> checkInDate b2 < checkOutDate b1)"
proof -
  have inv: "store_inv st" using assms(1) by (rule reachable_inv)
  then have "b_id b1 \<noteq> b_id b2"
    using assms(2-4) unfolding store_inv_def by (metis distinct_map inj_on_eq_iff)
  then show ?thesis
    using inv assms(2,3,5-7) unfolding store_inv_def no_double_booking_def occupying_def by blast
qed

theorem confirmed_bookings_never_overlap_witness:
  "reachable ex_two_accepted \<and>
   bookings ex_two_accepted ! 0 \<in> set (bookings ex_two_accepted) \<and>
   bookings ex_two_accepted ! 1 \<in> set (bookings ex_two_accepted) \<and>
   bookings ex_two_accepted ! 0 \<noteq> bookings ex_two_accepted ! 1 \<and>
   houseId (bookings ex_two_accepted ! 0) = houseId (bookings ex_two_accepted ! 1) \<and>
   status (bookings ex_two_accepted ! 0) = Confirmed \<and>
   status (bookings ex_two_accepted ! 1) = Confirmed \<and>
   \<not> (checkInDate (bookings ex_two_accepted ! 0) < checkOutDate (bookings ex_two_accepted ! 1) \<and>
      checkInDate (bookings ex_two_accepted ! 1) < checkOutDate (bookings ex_two_accepted ! 0))"
proof -
  have r: "reachable ex_two_accepted"
    unfolding ex_two_accepted_def ex_db_def
    by (intro reachable.put reachable.init) (simp_all add: ex_booking_def)
  have e: "bookings ex_two_accepted =
    [(ex_booking 1 20 5 10 Confirmed)
       \<lparr> statusHistory := [ex_accepted_at 1], updatedAt := 1 \<rparr>,
     (ex_booking 2 21 12 20 Confirmed)
       \<lparr> statusHistory := [ex_accepted_at 2], updatedAt := 2 \<rparr>]"
    by (simp add: ex_two_accepted_def ex_defs put_defs)
  have m: "bookings ex_two_accepted ! 0 \<in> set (bookings ex_two_accepted)"
    "bookings ex_two_accepted ! 1 \<in> set (bookings ex_two_accepted)"
    "bookings ex_two_accepted ! 0 \<noteq> bookings ex_two_accepted ! 1"
    "houseId (bookings ex_two_accepted ! 0) = houseId (bookings ex_two_accepted ! 1)"
    "status (bookings ex_two_accepted ! 0) \<in> {Confirmed, Active}"
    "status (bookings ex_two_accepted ! 1) \<in> {Confirmed, Active}"
    unfolding e by (simp_all add: ex_booking_def)
  have s: "status (bookings ex_two_accepted ! 0) = Confirmed"
    "status (bookings ex_two_accepted ! 1) = Confirmed"
    unfolding e by (simp_all add: ex_booking_def)
  from confirmed_bookings_never_overlap [OF r m] r m(1-4) s show ?thesis by blast
qed

section \<open>Accepting a booking\<close>

lemma update_booking_map:
  assumes "distinct (map b_id bs)" "booking \<in> set bs"
  shows "update_booking (b_id booking) (ownerId booking) f bs =
         map (\<lambda>b. if b_id b = b_id booking then f b else b) bs"
  using assms unfolding update_booking_def
proof (induction bs)
  case Nil
  then show ?case by simp
next
  case (Cons x xs)
  show ?case
  proof (cases "b_id x = b_id booking")
    case True
    then have "x = booking" using Cons.prems by (auto simp: image_iff)
    moreover have "\<forall>b \<in> set xs. b_id b \<noteq> b_id booking"
      using Cons.prems True by (auto simp: image_iff)
    then have "map (\<lambda>b. if b_id b = b_id booking then f b else b) xs = xs"
      by (simp add: map_idI)
    ultimately show ?thesis by simp
  next
    case False
    then have "booking \<in> set xs" using Cons.prems by auto
    then show ?thesis using Cons False by simp
  qed
qed

lemma cascade_by_ids_eq_query:
  assumes "distinct (map b_id bs)"
  shows "cascade_by_ids bid booking now bs = cascade_by_query bid booking now bs"
proof -
  have inj: "inj_on b_id (set bs)" using assms by (simp add: distinct_map)
  have "b_id b \<in> set (map b_id (filter (otherPending bid booking) bs)) \<longleftrightarrow> otherPending bid booking b"
    if "b \<in> set bs" for b
    using that inj by (auto simp: image_iff dest: inj_onD)
  then have "updateMany (\<lambda>b. b_id b \<in> set (map b_id (filter (otherPending bid booking) bs))) (auto_reject now) bs
      = updateMany (otherPending bid booking) (auto_reject now) bs"
    unfolding updateMany_def by (intro map_cong) auto
  moreover have "updateMany (otherPending bid booking) (auto_reject now) bs = bs"
    if "filter (otherPending bid booking) bs = []"
    using that unfolding updateMany_def by (intro map_idI) (auto simp: filter_empty_conv)
  ultimately show ?thesis
    by (auto simp: cascade_by_ids_def cascade_by_query_def Let_def)
qed

lemma cascade_by_query_idem:
  "cascade_by_query bid booking now (cascade_by_query bid booking now bs) = cascade_by_query bid booking now bs"
  by (simp add: cascade_by_query_def updateMany_def otherPending_def auto_reject_def)

lemma cascade_by_query_ids: "map b_id (cascade_by_query bid booking now bs) = map b_id bs"
  by (simp add: cascade_by_query_def updateMany_def auto_reject_def comp_def if_distrib cong: if_cong)

lemma put_writes_accept:
  assumes "distinct (map b_id bs)" "booking \<in> set bs" "pb_action body = ''accept''"
  shows "put_writes (b_id booking) (ownerId booking) body booking now notifyOk bs =
     map (\<lambda>b. if b_id b = b_id booking then updateFields body (ownerId booking) now booking b
              else if otherPending (b_id booking) booking b then auto_reject now b else b) bs"
proof -
  let ?bs1 = "update_booking (b_id booking) (ownerId booking) (updateFields body (ownerId booking) now booking) bs"
  have 1: "?bs1 = map (\<lambda>b. if b_id b = b_id booking then updateFields body (ownerId booking) now booking b else b) bs"
    by (rule update_booking_map [OF assms(1,2)])
  have "map b_id ?bs1 = map b_id bs"
    unfolding 1 by (simp add: updateFields_def comp_def if_distrib cong: if_cong)
  then have d1: "distinct (map b_id ?bs1)" using assms(1) by simp
  have "put_writes (b_id booking) (ownerId booking) body booking now notifyOk bs =
        cascade_by_query (b_id booking) booking now ?bs1"
    using assms(3) cascade_by_ids_eq_query [OF d1]
    by (simp add: put_writes_def Let_def cascade_by_query_idem)
  also have "\<dots> = map (\<lambda>b. if b_id b = b_id booking then updateFields body (ownerId booking) now booking b
              else if otherPending (b_id booking) booking b then auto_reject now b else b) bs"
    unfolding 1 cascade_by_query_def updateMany_def
    by (auto simp: otherPending_def updateFields_def)
  finally show ?thesis .
qed


lemma put_success:
  assumes "pr_token req = Some tok"
    and "role tok = ''owner'' \<or> role tok = ''admin''"
    and "pr_bookingId req = Some bid"
    and "pr_body req = Some body"
    and "pb_action body \<in> set validActions"
    and "find (\<lambda>b. b_id b = bid \<and> ownerId b = userId tok) (bookings st) = Some booking"
    and "pb_action body \<in> set (stateTransition (status booking))"
    and "pb_action body = ''accept'' \<Longrightarrow> overlappingBookings bid booking (bookings st) = []"
  shows "owner_bookings_put req now notifyOk st =
    (Inr \<lparr> po_message = message_of (pb_action body),
           po_booking = find (\<lambda>b. b_id b = bid \<and> ownerId b = userId tok)
              (update_booking bid (userId tok) (updateFields body (userId tok) now booking) (bookings st)),
           po_action = pb_action body,
           po_newStatus = newStatus (pb_action body) (status booking) \<rparr>,
     st\<lparr> bookings := put_writes bid (userId tok) body booking now notifyOk (bookings st) \<rparr>)"
  using assms by (auto simp: owner_bookings_put_def)

lemma put_accept_conflict:
  assumes "pr_token req = Some tok"
    and "role tok = ''owner'' \<or> role tok = ''admin''"
    and "pr_bookingId req = Some bid"
    and "pr_body req = Some body"
    and "pb_action body = ''accept''"
    and "find (\<lambda>b. b_id b = bid \<and> ownerId b = userId tok) (bookings st) = Some booking"
    and "status booking = Pending"
    and "overlappingBookings bid booking (bookings st) \<noteq> []"
  shows "owner_bookings_put req now notifyOk st =
    (Inl (DateConflict (map conflict_of (overlappingBookings bid booking (bookings st)))), st)"
  using assms by (auto simp: owner_bookings_put_def validActions_def)

text \<open>A successful accept reads back what made it succeed.\<close>

lemma put_accept_okD:
  assumes "fst (owner_bookings_put req now notifyOk st) = Inr ok"
    and "pr_bookingId req = Some bid"
    and "pr_body req = Some body"
    and "pb_action body = ''accept''"
  shows "\<exists>tok booking. pr_token req = Some tok \<and> (role tok = ''owner'' \<or> role tok = ''admin'') \<and>
      find (\<lambda>b. b_id b = bid \<and> ownerId b = userId tok) (bookings st) = Some booking \<and>
      status booking = Pending \<and> overlappingBookings bid booking (bookings st) = []"
proof -
  from assms obtain tok where t: "pr_token req = Some tok"
    by (cases "pr_token req") (auto simp: owner_bookings_put_def)
  from assms t have r: "role tok = ''owner'' \<or> role tok = ''admin''"
    by (auto simp: owner_bookings_put_def split: if_splits)
  from assms t r obtain booking where
    f: "find (\<lambda>b. b_id b = bid \<and> ownerId b = userId tok) (bookings st) = Some booking"
    by (cases "find (\<lambda>b. b_id b = bid \<and> ownerId b = userId tok) (bookings st)")
       (auto simp: owner_bookings_put_def split: if_splits)
  from assms t r f have "''accept'' \<in> set (stateTransition (status booking))"
    by (auto simp: owner_bookings_put_def split: if_splits)
  then have p: "status booking = Pending" by (cases "status booking") simp_all
  from assms t r f p have "overlappingBookings bid booking (bookings st) = []"
    by (auto simp: owner_bookings_put_def validActions_def split: if_splits)
  with t r f p show ?thesis by blast
qed

text \<open>
  Claim C3, as the code has it. When a pending booking \<open>A\<close> is accepted, \<open>A\<close> becomes
  confirmed with one more history entry, and every other booking of the same house that is
  pending and meets \<open>A\<close>'s dates under the closed-interval test
  (\<open>checkIn \<le> A.checkOut\<close> and \<open>A.checkIn \<le> checkOut\<close>) becomes rejected with the
  reason "Dates no longer available (booking accepted for another renter)". Every other
  booking, and the rest of the store, is unchanged. The result does not depend on whether
  the notification block ran.
\<close>

theorem accept_cascade:
  assumes "distinct (map b_id (bookings st))"
    and "A \<in> set (bookings st)"
    and "pr_bookingId req = Some (b_id A)"
    and "pr_body req = Some body"
    and "pb_action body = ''accept''"
    and "fst (owner_bookings_put req now notifyOk st) = Inr ok"
  shows "snd (owner_bookings_put req now notifyOk st) =
     st\<lparr> bookings :=
        map (\<lambda>b. if b_id b = b_id A
                 then A\<lparr> status := Confirmed,
                         statusHistory := statusHistory A @
                           [\<lparr> h_from = Pending, h_to = Confirmed, h_action = ''accept'',
                              h_by = ownerId A, h_reason = pb_reason body,
                              h_notes = pb_notes body, h_at = now \<rparr>],
                         updatedAt := now \<rparr>
                 else if houseId b = houseId A \<and> status b = Pending \<and>
                         checkInDate b \<le> checkOutDate A \<and> checkInDate A \<le> checkOutDate b
                 then b\<lparr> status := Rejected,
                         rejectionReason :=
                           Some ''Dates no longer available (booking accepted for another renter)'',
                         updatedAt := now \<rparr>
                 else b) (bookings st) \<rparr>"
proof -
  from put_accept_okD [OF assms(6,3,4,5)] obtain tok booking where
    t: "pr_token req = Some tok" "role tok = ''owner'' \<or> role tok = ''admin''"
    and f: "find (\<lambda>b. b_id b = b_id A \<and> ownerId b = userId tok) (bookings st) = Some booking"
    and p: "status booking = Pending"
    and c: "overlappingBookings (b_id A) booking (bookings st) = []"
    by blast
  have "booking \<in> set (bookings st)" "b_id booking = b_id A" "ownerId booking = userId tok"
    using find_SomeD [OF f] by simp_all
  have inj: "inj_on b_id (set (bookings st))"
    using assms(1) by (simp add: distinct_map)
  have eq: "booking = A"
    using inj_onD [OF inj \<open>b_id booking = b_id A\<close> \<open>booking \<in> set (bookings st)\<close> assms(2)] .
  have o: "userId tok = ownerId A"
    using \<open>ownerId booking = userId tok\<close> eq by simp
  have pA: "status A = Pending" using p eq by simp
  have v: "pb_action body \<in> set validActions" "pb_action body \<in> set (stateTransition (status booking))"
    using assms(5) p by (simp_all add: validActions_def)
  have "snd (owner_bookings_put req now notifyOk st) =
      st\<lparr> bookings := put_writes (b_id A) (ownerId A) body A now notifyOk (bookings st) \<rparr>"
    using put_success [OF t assms(3,4) v(1) f v(2) c, of now notifyOk] eq o by simp
  also have "put_writes (b_id A) (ownerId A) body A now notifyOk (bookings st) =
      map (\<lambda>b. if b_id b = b_id A then updateFields body (ownerId A) now A b
               else if otherPending (b_id A) A b then auto_reject now b else b) (bookings st)"
    by (rule put_writes_accept [OF assms(1,2,5)])
  also have "\<dots> = map (\<lambda>b. if b_id b = b_id A
                 then A\<lparr> status := Confirmed,
                         statusHistory := statusHistory A @
                           [\<lparr> h_from = Pending, h_to = Confirmed, h_action = ''accept'',
                              h_by = ownerId A, h_reason = pb_reason body,
                              h_notes = pb_notes body, h_at = now \<rparr>],
                         updatedAt := now \<rparr>
                 else if houseId b = houseId A \<and> status b = Pending \<and>
                         checkInDate b \<le> checkOutDate A \<and> checkInDate A \<le> checkOutDate b
                 then b\<lparr> status := Rejected,
                         rejectionReason :=
                           Some ''Dates no longer available (booking accepted for another renter)'',
                         updatedAt := now \<rparr>
                 else b) (bookings st)"
  proof (rule map_cong [OF refl])
    fix b assume b: "b \<in> set (bookings st)"
    have "b_id b = b_id A \<Longrightarrow> b = A"
      using inj_onD [OF inj _ b assms(2)] .
    then show "(if b_id b = b_id A then updateFields body (ownerId A) now A b
               else if otherPending (b_id A) A b then auto_reject now b else b) =
          (if b_id b = b_id A
                 then A\<lparr> status := Confirmed,
                         statusHistory := statusHistory A @
                           [\<lparr> h_from = Pending, h_to = Confirmed, h_action = ''accept'',
                              h_by = ownerId A, h_reason = pb_reason body,
                              h_notes = pb_notes body, h_at = now \<rparr>],
                         updatedAt := now \<rparr>
                 else if houseId b = houseId A \<and> status b = Pending \<and>
                         checkInDate b \<le> checkOutDate A \<and> checkInDate A \<le> checkOutDate b
                 then b\<lparr> status := Rejected,
                         rejectionReason :=
                           Some ''Dates no longer available (booking accepted for another renter)'',
                         updatedAt := now \<rparr>
                 else b)"
    proof (cases "b_id b = b_id A")
      case True
      then have "b = A" by fact
      moreover have "updateFields body (ownerId A) now A A =
          A\<lparr> status := Confirmed,
             statusHistory := statusHistory A @
               [\<lparr> h_from = Pending, h_to = Confirmed, h_action = ''accept'',
                  h_by = ownerId A, h_reason = pb_reason body,
                  h_notes = pb_notes body, h_at = now \<rparr>],
             updatedAt := now \<rparr>"
        using pA assms(5) by (simp add: updateFields_def newStatus_def)
      ultimately show ?thesis by simp
    next
      case False
      then show ?thesis by (simp add: otherPending_def auto_reject_def conj_commute)
    qed
  qed
  finally show ?thesis .
qed


theorem accept_cascade_witness:
  "distinct (map b_id (bookings (ex_db [ex_booking 2 21 10 15 Pending, ex_booking 3 22 12 20 Pending,
                                        ex_booking 4 23 30 40 Pending]))) \<and>
   fst (owner_bookings_put (ex_put 7 ''owner'' 2 ''accept'') 1 False
          (ex_db [ex_booking 2 21 10 15 Pending, ex_booking 3 22 12 20 Pending,
                  ex_booking 4 23 30 40 Pending])) =
     Inr \<lparr> po_message = ''Booking request accepted'',
           po_booking = Some ((ex_booking 2 21 10 15 Confirmed)
                               \<lparr> statusHistory := [ex_accepted_at 1], updatedAt := 1 \<rparr>),
           po_action = ''accept'', po_newStatus = Confirmed \<rparr> \<and>
   snd (owner_bookings_put (ex_put 7 ''owner'' 2 ''accept'') 1 False
          (ex_db [ex_booking 2 21 10 15 Pending, ex_booking 3 22 12 20 Pending,
                  ex_booking 4 23 30 40 Pending])) =
     ex_db [(ex_booking 2 21 10 15 Confirmed) \<lparr> statusHistory := [ex_accepted_at 1], updatedAt := 1 \<rparr>,
            (ex_booking 3 22 12 20 Rejected)
              \<lparr> rejectionReason :=
                   Some ''Dates no longer available (booking accepted for another renter)'',
                 updatedAt := 1 \<rparr>,
            ex_booking 4 23 30 40 Pending]"
proof -
  let ?st = "ex_db [ex_booking 2 21 10 15 Pending, ex_booking 3 22 12 20 Pending,
                    ex_booking 4 23 30 40 Pending]"
  let ?ok = "\<lparr> po_message = ''Booking request accepted'',
           po_booking = Some ((ex_booking 2 21 10 15 Confirmed)
                               \<lparr> statusHistory := [ex_accepted_at 1], updatedAt := 1 \<rparr>),
           po_action = ''accept'', po_newStatus = Confirmed \<rparr>"
  have d: "distinct (map b_id (bookings ?st))" by (simp add: ex_defs)
  have m: "ex_booking 2 21 10 15 Pending \<in> set (bookings ?st)" by (simp add: ex_defs)
  have i: "pr_bookingId (ex_put 7 ''owner'' 2 ''accept'') = Some (b_id (ex_booking 2 21 10 15 Pending))"
    by (simp add: ex_defs)
  have b: "pr_body (ex_put 7 ''owner'' 2 ''accept'') = Some (ex_body ''accept'')"
    by (simp add: ex_defs)
  have a: "pb_action (ex_body ''accept'') = ''accept''" by (simp add: ex_defs)
  have ok: "fst (owner_bookings_put (ex_put 7 ''owner'' 2 ''accept'') 1 False ?st) = Inr ?ok"
    by (simp add: ex_defs put_defs)
  from accept_cascade [OF d m i b a ok] d ok show ?thesis
    by (simp add: ex_defs)
qed

text \<open>Claim C3 as stated fails on the code. Booking 3 overlaps the accepted booking 2 and
  is rejected, but no history entry is appended to it; booking 4 starts on the day booking 2
  ends, so the two do not overlap as half-open ranges, and it is rejected all the same.\<close>

theorem accept_cascade_counterexample:
  "bookings (snd (owner_bookings_put (ex_put 7 ''owner'' 2 ''accept'') 1 True
      (ex_db [ex_booking 2 21 10 15 Pending, ex_booking 3 22 12 20 Pending,
              ex_booking 4 23 15 18 Pending]))) =
     [(ex_booking 2 21 10 15 Confirmed) \<lparr> statusHistory := [ex_accepted_at 1], updatedAt := 1 \<rparr>,
      (ex_booking 3 22 12 20 Rejected)
        \<lparr> statusHistory := [],
          rejectionReason :=
            Some ''Dates no longer available (booking accepted for another renter)'',
          updatedAt := 1 \<rparr>,
      (ex_booking 4 23 15 18 Rejected)
        \<lparr> statusHistory := [],
          rejectionReason :=
            Some ''Dates no longer available (booking accepted for another renter)'',
          updatedAt := 1 \<rparr>] \<and>
   \<not> (checkInDate (ex_booking 4 23 15 18 Pending) < checkOutDate (ex_booking 2 21 10 15 Pending) \<and>
      checkInDate (ex_booking 2 21 10 15 Pending) < checkOutDate (ex_booking 4 23 15 18 Pending))"
  by (simp add: ex_defs put_defs)

text \<open>
  Claim C4, as the code has it. Accepting a pending booking \<open>A\<close> fails with the 409
  date conflict, carrying id, check-in, check-out and status of every conflicting booking
  and leaving the store unchanged, if and only if some other booking of the same house with
  status confirmed or active meets \<open>A\<close>'s dates under the closed-interval test. Pending
  bookings are not consulted: they are the ones the cascade rejects.
\<close>

theorem accept_date_conflict:
  assumes "pr_token req = Some tok"
    and "role tok = ''owner'' \<or> role tok = ''admin''"
    and "pr_body req = Some body"
    and "pb_action body = ''accept''"
    and "distinct (map b_id (bookings st))"
    and "A \<in> set (bookings st)"
    and "ownerId A = userId tok"
    and "pr_bookingId req = Some (b_id A)"
    and "status A = Pending"
  shows "(if \<exists>b \<in> set (bookings st).
              b_id b \<noteq> b_id A \<and> houseId b = houseId A \<and>
              (status b = Confirmed \<or> status b = Active) \<and>
              checkInDate b \<le> checkOutDate A \<and> checkInDate A \<le> checkOutDate b
          then owner_bookings_put req now notifyOk st =
                 (Inl (DateConflict
                    (map (\<lambda>b. \<lparr> c_id = b_id b, c_checkIn = checkInDate b,
                                 c_checkOut = checkOutDate b, c_status = status b \<rparr>)
                       (filter (\<lambda>b. b_id b \<noteq> b_id A \<and> houseId b = houseId A \<and>
                                    (status b = Confirmed \<or> status b = Active) \<and>
                                    checkInDate b \<le> checkOutDate A \<and>
                                    checkInDate A \<le> checkOutDate b) (bookings st)))), st)
          else \<exists>ok. fst (owner_bookings_put req now notifyOk st) = Inr ok)"
proof -
  have f: "find (\<lambda>b. b_id b = b_id A \<and> ownerId b = userId tok) (bookings st) = Some A"
    using find_by_id [OF assms(5,6)] assms(7) by simp
  have o: "overlappingBookings (b_id A) A (bookings st) =
      filter (\<lambda>b. b_id b \<noteq> b_id A \<and> houseId b = houseId A \<and>
                   (status b = Confirmed \<or> status b = Active) \<and>
                   checkInDate b \<le> checkOutDate A \<and> checkInDate A \<le> checkOutDate b) (bookings st)"
    by (simp add: overlappingBookings_def)
  show ?thesis
  proof (cases "overlappingBookings (b_id A) A (bookings st) = []")
    case True
    have "pb_action body \<in> set validActions" "pb_action body \<in> set (stateTransition (status A))"
      using assms(4,9) by (simp_all add: validActions_def)
    from put_success [OF assms(1,2,8,3) this(1) f this(2) True, of now notifyOk]
    have ok: "\<exists>ok. fst (owner_bookings_put req now notifyOk st) = Inr ok" by simp
    have none: "\<not> (\<exists>b \<in> set (bookings st).
              b_id b \<noteq> b_id A \<and> houseId b = houseId A \<and>
              (status b = Confirmed \<or> status b = Active) \<and>
              checkInDate b \<le> checkOutDate A \<and> checkInDate A \<le> checkOutDate b)"
      using True unfolding o filter_empty_conv by blast
    show ?thesis by (subst if_not_P [OF none]) (rule ok)
  next
    case False
    from put_accept_conflict [OF assms(1,2,8,3,4) f assms(9) False, of now notifyOk]
    have r: "owner_bookings_put req now notifyOk st =
        (Inl (DateConflict (map conflict_of (overlappingBookings (b_id A) A (bookings st)))), st)" .
    have some: "\<exists>b \<in> set (bookings st).
              b_id b \<noteq> b_id A \<and> houseId b = houseId A \<and>
              (status b = Confirmed \<or> status b = Active) \<and>
              checkInDate b \<le> checkOutDate A \<and> checkInDate A \<le> checkOutDate b"
      using False unfolding o filter_empty_conv by blast
    have m: "map conflict_of (overlappingBookings (b_id A) A (bookings st)) =
        map (\<lambda>b. \<lparr> c_id = b_id b, c_checkIn = checkInDate b,
                     c_checkOut = checkOutDate b, c_status = status b \<rparr>)
           (filter (\<lambda>b. b_id b \<noteq> b_id A \<and> houseId b = houseId A \<and>
                        (status b = Confirmed \<or> status b = Active) \<and>
                        checkInDate b \<le> checkOutDate A \<and>
                        checkInDate A \<le> checkOutDate b) (bookings st))"
      unfolding o by (simp add: conflict_of_def)
    show ?thesis by (subst if_P [OF some]) (simp only: r m)
  qed
qed

theorem accept_date_conflict_witness:
  "distinct (map b_id (bookings (ex_db [ex_booking 1 20 5 10 Confirmed, ex_booking 2 21 8 15 Pending]))) \<and>
   ex_booking 2 21 8 15 Pending \<in> set (bookings (ex_db [ex_booking 1 20 5 10 Confirmed, ex_booking 2 21 8 15 Pending])) \<and>
   ownerId (ex_booking 2 21 8 15 Pending) = 7 \<and>
   status (ex_booking 2 21 8 15 Pending) = Pending \<and>
   owner_bookings_put (ex_put 7 ''owner'' 2 ''accept'') 1 True
       (ex_db [ex_booking 1 20 5 10 Confirmed, ex_booking 2 21 8 15 Pending]) =
     (Inl (DateConflict [\<lparr> c_id = 1, c_checkIn = on_day 5, c_checkOut = on_day 10,
                           c_status = Confirmed \<rparr>]),
      ex_db [ex_booking 1 20 5 10 Confirmed, ex_booking 2 21 8 15 Pending])"
  using accept_date_conflict [of "ex_put 7 ''owner'' 2 ''accept''" "\<lparr> userId = 7, role = ''owner'' \<rparr>"
      "ex_body ''accept''" "ex_db [ex_booking 1 20 5 10 Confirmed, ex_booking 2 21 8 15 Pending]"
      "ex_booking 2 21 8 15 Pending" 1 True]
  by (simp add: ex_defs)

text \<open>Claim C4 as stated fails on the code: the pending booking 3 overlaps booking 2, and
  accepting booking 2 succeeds.\<close>

theorem accept_date_conflict_counterexample:
  "fst (owner_bookings_put (ex_put 7 ''owner'' 2 ''accept'') 1 True
      (ex_db [ex_booking 2 21 10 15 Pending, ex_booking 3 22 12 20 Pending])) =
     Inr \<lparr> po_message = ''Booking request accepted'',
           po_booking = Some ((ex_booking 2 21 10 15 Confirmed)
                               \<lparr> statusHistory := [ex_accepted_at 1], updatedAt := 1 \<rparr>),
           po_action = ''accept'', po_newStatus = Confirmed \<rparr> \<and>
   status (ex_booking 3 22 12 20 Pending) = Pending \<and>
   checkInDate (ex_booking 3 22 12 20 Pending) < checkOutDate (ex_booking 2 21 10 15 Pending) \<and>
   checkInDate (ex_booking 2 21 10 15 Pending) < checkOutDate (ex_booking 3 22 12 20 Pending)"
  by (simp add: ex_defs put_defs)

text \<open>
  Claim C5, as the code has it. The write that confirms a booking is filtered on the
  booking id and the owner id, not on the stored status: applied to the owner's booking it
  sets the status to confirmed whatever the stored status is. The pending check is made on
  the document the same request read before, so a request to accept a booking whose stored
  status is not pending leaves the store unchanged.
\<close>

theorem accept_write_unconditional:
  assumes "distinct (map b_id (bookings st))"
    and "A \<in> set (bookings st)"
    and "status A \<noteq> Pending"
    and "pr_bookingId req = Some (b_id A)"
    and "pr_body req = Some body"
    and "pb_action body = ''accept''"
  shows "snd (owner_bookings_put req now notifyOk st) = st \<and>
         map status (update_booking (b_id A) (ownerId A) (updateFields body (ownerId A) now0 seen)
                       (bookings st)) =
         map (\<lambda>b. if b_id b = b_id A then Confirmed else status b) (bookings st)"
proof -
  have "snd (owner_bookings_put req now notifyOk st) = st"
  proof (cases "fst (owner_bookings_put req now notifyOk st)")
    case (Inl e)
    then show ?thesis
      by (auto simp: owner_bookings_put_def split: option.splits if_splits)
  next
    case (Inr ok)
    from put_accept_okD [OF Inr assms(4,5,6)] obtain tok :: decoded and booking where
      f: "find (\<lambda>b. b_id b = b_id A \<and> ownerId b = userId tok) (bookings st) = Some booking"
      and p: "status booking = Pending"
      by blast
    have inj: "inj_on b_id (set (bookings st))"
      using assms(1) by (simp add: distinct_map)
    have "booking \<in> set (bookings st)" "b_id booking = b_id A"
      using find_SomeD [OF f] by simp_all
    then have "booking = A"
      using inj_onD [OF inj _ _ assms(2)] by blast
    with p assms(3) show ?thesis by simp
  qed
  moreover have "map status (update_booking (b_id A) (ownerId A)
       (updateFields body (ownerId A) now0 seen) (bookings st)) =
         map (\<lambda>b. if b_id b = b_id A then Confirmed else status b) (bookings st)"
    unfolding update_booking_map [OF assms(1,2)]
    using assms(6) by (simp add: updateFields_def newStatus_def comp_def if_distrib cong: if_cong)
  ultimately show ?thesis by simp
qed

theorem accept_write_unconditional_witness:
  "distinct (map b_id (bookings (ex_db [ex_booking 1 20 5 10 Cancelled]))) \<and>
   ex_booking 1 20 5 10 Cancelled \<in> set (bookings (ex_db [ex_booking 1 20 5 10 Cancelled])) \<and>
   status (ex_booking 1 20 5 10 Cancelled) \<noteq> Pending \<and>
   snd (owner_bookings_put (ex_put 7 ''owner'' 1 ''accept'') 1 True (ex_db [ex_booking 1 20 5 10 Cancelled]))
     = ex_db [ex_booking 1 20 5 10 Cancelled]"
  using accept_write_unconditional [of "ex_db [ex_booking 1 20 5 10 Cancelled]" "ex_booking 1 20 5 10 Cancelled"
      "ex_put 7 ''owner'' 1 ''accept''" "ex_body ''accept''" 1 True 0 "ex_booking 1 20 5 10 Pending"]
  by (simp add: ex_defs)

text \<open>Claim C5 as stated fails on the code: the confirming write built from a read that saw
  booking 1 pending, applied to a store in which booking 1 has been cancelled since, sets
  it to confirmed.\<close>

theorem accept_write_unconditional_counterexample:
  "map status [ex_booking 1 20 5 10 Cancelled] = [Cancelled] \<and>
   map status (update_booking 1 7 (updateFields (ex_body ''accept'') 7 1 (ex_booking 1 20 5 10 Pending))
                 [ex_booking 1 20 5 10 Cancelled]) = [Confirmed]"
  by (simp add: ex_defs put_defs)

section \<open>The availability calendar\<close>

lemma availabilityCalendar_step:
  "c \<le> L \<Longrightarrow> availabilityCalendar booked price c L cal =
     availabilityCalendar booked price (addDays c 1) L (cal @ [cal_entry_at booked price c])"
  by (subst availabilityCalendar.simps) (simp add: cal_entry_at_def)

lemma availabilityCalendar_stop:
  "\<not> c \<le> L \<Longrightarrow> availabilityCalendar booked price c L cal = cal"
  by (subst availabilityCalendar.simps) simp

lemma availabilityCalendar_acc:
  "availabilityCalendar booked price c L cal = cal @ availabilityCalendar booked price c L []"
proof (induction "nat (L - c + 1)" arbitrary: c cal rule: less_induct)
  case less
  show ?case
  proof (cases "c \<le> L")
    case True
    have m: "nat (L - addDays c 1 + 1) < nat (L - c + 1)"
      using True by (simp add: addDays_def msPerDay_def)
    let ?e = "cal_entry_at booked price c"
    let ?rest = "availabilityCalendar booked price (addDays c 1) L []"
    have "availabilityCalendar booked price c L cal =
        availabilityCalendar booked price (addDays c 1) L (cal @ [?e])"
      by (rule availabilityCalendar_step [OF True])
    also have "\<dots> = (cal @ [?e]) @ ?rest"
      by (rule less [OF m])
    finally have A: "availabilityCalendar booked price c L cal = (cal @ [?e]) @ ?rest" .
    have "availabilityCalendar booked price c L [] =
        availabilityCalendar booked price (addDays c 1) L ([] @ [?e])"
      by (rule availabilityCalendar_step [OF True])
    also have "\<dots> = ([] @ [?e]) @ ?rest"
      by (rule less [OF m])
    finally have B: "availabilityCalendar booked price c L [] = ([] @ [?e]) @ ?rest" .
    have "(cal @ [?e]) @ ?rest = cal @ (([] @ [?e]) @ ?rest)" by simp
    then show ?thesis by (simp only: A B)
  next
    case False
    then show ?thesis by (simp add: availabilityCalendar_stop)
  qed
qed

lemma availabilityCalendar_Cons:
  "c \<le> L \<Longrightarrow> availabilityCalendar booked price c L [] =
     cal_entry_at booked price c # availabilityCalendar booked price (addDays c 1) L []"
proof -
  assume le: "c \<le> L"
  have "availabilityCalendar booked price c L [] =
      availabilityCalendar booked price (addDays c 1) L ([] @ [cal_entry_at booked price c])"
    by (rule availabilityCalendar_step [OF le])
  also have "\<dots> = ([] @ [cal_entry_at booked price c]) @
      availabilityCalendar booked price (addDays c 1) L []"
    by (rule availabilityCalendar_acc)
  also have "\<dots> = cal_entry_at booked price c # availabilityCalendar booked price (addDays c 1) L []"
    by simp
  finally show ?thesis .
qed

lemma availabilityCalendar_nth:
  "addDays c (int k) \<le> L \<Longrightarrow>
   k < length (availabilityCalendar booked price c L []) \<and>
   availabilityCalendar booked price c L [] ! k = cal_entry_at booked price (addDays c (int k))"
proof (induction k arbitrary: c)
  case 0
  then have "c \<le> L" by (simp add: addDays_def)
  then show ?case by (simp add: availabilityCalendar_Cons addDays_def)
next
  case (Suc k)
  have e: "addDays (addDays c 1) (int k) = addDays c (int (Suc k))"
    by (simp add: addDays_def algebra_simps)
  have "c \<le> L" using Suc.prems by (simp add: addDays_def msPerDay_def)
  moreover have "addDays (addDays c 1) (int k) \<le> L" using Suc.prems e by simp
  ultimately show ?case
    using Suc.IH [of "addDays c 1"] e by (simp add: availabilityCalendar_Cons)
qed

lemma isBooked_bookedDates:
  assumes "today \<le> d" "d \<le> later"
  shows "isBooked (bookedDates hid today later bs) d \<longleftrightarrow>
     (\<exists>b \<in> set bs. houseId b = hid \<and> (status b = Confirmed \<or> status b = Active) \<and>
        checkInDate b \<le> d \<and> d \<le> checkOutDate b)"
  using assms by (auto simp: isBooked_def bookedDates_def list_ex_iff)

lemma find_findOneAndUpdate:
  assumes "\<And>x. p (f x) = p x"
  shows "find p (findOneAndUpdate p f xs) = map_option f (find p xs)"
  by (induction xs) (simp_all add: assms)


lemma record_view_fields:
  "h_id (record_view tok now h) = h_id h"
  "h_approved (record_view tok now h) = h_approved h"
  "h_isActive (record_view tok now h) = h_isActive h"
  "h_isAvailable (record_view tok now h) = h_isAvailable h"
  "h_price (record_view tok now h) = h_price h"
  by (simp_all add: record_view_def)

text \<open>The response of a GET that finds the house and may show it.\<close>

lemma house_details_get_ok:
  assumes "gr_houseId req = Some hid"
    and "find (\<lambda>h. h_id h = hid) (houses st) = Some h"
    and "(\<exists>tok. gr_token req = Some tok \<and> (role tok = ''owner'' \<or> role tok = ''admin'')) \<or>
         (h_approved h \<and> h_isActive h \<and> h_isAvailable h)"
  shows "fst (house_details_get req now st) =
     Inr \<lparr> go_calendar = take 30 (availabilityCalendar
              (bookedDates hid now (addDays now 90) (bookings st)) (h_price h) now (addDays now 90) []),
           go_bookedDates = bookedDates hid now (addDays now 90) (bookings st),
           go_views = h_views h + 1 \<rparr>"
proof -
  have "find (\<lambda>h. h_id h = hid)
          (findOneAndUpdate (\<lambda>h. h_id h = hid) (record_view (gr_token req) now) (houses st)) =
        Some (record_view (gr_token req) now h)"
    by (simp add: find_findOneAndUpdate record_view_fields assms(2))
  then show ?thesis
    using assms(1,3)
    by (auto simp: house_details_get_def Let_def record_view_fields record_view_def
          split: option.splits)
qed

text \<open>
  Claim C7, as the code has it. The calendar has one entry for each of the instants
  \<open>now + k\<close> days, \<open>k = 0, ..., 29\<close>, and marks the entry unavailable exactly when
  some booking of the house with status confirmed or active has
  \<open>checkIn \<le> instant \<le> checkOut\<close>: the interval is closed, so the instant of the
  checkout is unavailable too. For a confirmed booking from day 5 to day 10, entries 5 to
  10 are unavailable and all others available.
\<close>

theorem calendar_closed_interval:
  assumes "gr_houseId req = Some hid"
    and "find (\<lambda>h. h_id h = hid) (houses st) = Some h"
    and "(\<exists>tok. gr_token req = Some tok \<and> (role tok = ''owner'' \<or> role tok = ''admin'')) \<or>
         (h_approved h \<and> h_isActive h \<and> h_isAvailable h)"
  shows "\<exists>ok. fst (house_details_get req now st) = Inr ok \<and>
           length (go_calendar ok) = 30 \<and>
           (\<forall>k < 30. ce_date (go_calendar ok ! k) = addDays now (int k) \<and>
              (ce_available (go_calendar ok ! k) \<longleftrightarrow>
                 \<not> (\<exists>b \<in> set (bookings st).
                       houseId b = hid \<and> (status b = Confirmed \<or> status b = Active) \<and>
                       checkInDate b \<le> addDays now (int k) \<and>
                       addDays now (int k) \<le> checkOutDate b)))"
proof -
  let ?booked = "bookedDates hid now (addDays now 90) (bookings st)"
  let ?cal = "availabilityCalendar ?booked (h_price h) now (addDays now 90) []"
  have nth: "k < length ?cal \<and> ?cal ! k = cal_entry_at ?booked (h_price h) (addDays now (int k))"
    if "k \<le> 90" for k
  proof (rule availabilityCalendar_nth)
    show "addDays now (int k) \<le> addDays now 90"
      using that by (simp add: addDays_def msPerDay_def)
  qed
  have len: "length (take 30 ?cal) = 30"
    using nth [of 90] by simp
  have ent: "ce_date (take 30 ?cal ! k) = addDays now (int k) \<and>
      (ce_available (take 30 ?cal ! k) \<longleftrightarrow>
         \<not> (\<exists>b \<in> set (bookings st).
               houseId b = hid \<and> (status b = Confirmed \<or> status b = Active) \<and>
               checkInDate b \<le> addDays now (int k) \<and> addDays now (int k) \<le> checkOutDate b))"
    if k: "k < 30" for k
  proof -
    have "now \<le> addDays now (int k)" "addDays now (int k) \<le> addDays now 90"
      using k by (simp_all add: addDays_def msPerDay_def)
    from isBooked_bookedDates [OF this, of hid "bookings st"] nth [of k] k
    show ?thesis by (simp add: cal_entry_at_def)
  qed
  from house_details_get_ok [OF assms, of now] len ent show ?thesis by simp
qed

theorem calendar_closed_interval_witness:
  "gr_houseId ex_get = Some 1 \<and>
   find (\<lambda>h. h_id h = 1) (houses (ex_db [ex_booking 1 20 5 10 Confirmed])) = Some ex_house \<and>
   h_approved ex_house \<and> h_isActive ex_house \<and> h_isAvailable ex_house \<and>
   (\<exists>ok. fst (house_details_get ex_get 0 (ex_db [ex_booking 1 20 5 10 Confirmed])) = Inr ok \<and>
      length (go_calendar ok) = 30 \<and>
      (\<forall>k < 30. ce_available (go_calendar ok ! k) \<longleftrightarrow> \<not> (5 \<le> k \<and> k \<le> 10)))"
proof -
  have 1: "gr_houseId ex_get = Some 1" by (simp add: ex_get_def)
  have 2: "find (\<lambda>h. h_id h = 1) (houses (ex_db [ex_booking 1 20 5 10 Confirmed])) = Some ex_house"
    by (simp add: ex_defs)
  have 3: "h_approved ex_house \<and> h_isActive ex_house \<and> h_isAvailable ex_house"
    by (simp add: ex_defs)
  then have 4: "(\<exists>tok. gr_token ex_get = Some tok \<and> (role tok = ''owner'' \<or> role tok = ''admin'')) \<or>
         (h_approved ex_house \<and> h_isActive ex_house \<and> h_isAvailable ex_house)" by blast
  from calendar_closed_interval [OF 1 2 4, of 0] obtain ok where
    ok: "fst (house_details_get ex_get 0 (ex_db [ex_booking 1 20 5 10 Confirmed])) = Inr ok"
      "length (go_calendar ok) = 30"
      "\<forall>k < 30. ce_available (go_calendar ok ! k) \<longleftrightarrow>
         \<not> (\<exists>b \<in> set (bookings (ex_db [ex_booking 1 20 5 10 Confirmed])).
               houseId b = 1 \<and> (status b = Confirmed \<or> status b = Active) \<and>
               checkInDate b \<le> addDays 0 (int k) \<and> addDays 0 (int k) \<le> checkOutDate b)"
    by blast
  have "\<forall>k < 30. ce_available (go_calendar ok ! k) \<longleftrightarrow> \<not> (5 \<le> k \<and> k \<le> 10)"
    using ok(3) by (simp add: ex_defs)
  with 1 2 3 ok(1,2) show ?thesis by blast
qed

text \<open>Claim C7 as stated fails on the code: with a confirmed booking from day 5 to day 10,
  the entry of day 10, the instant of the checkout, is marked unavailable.\<close>

theorem calendar_counterexample:
  "checkOutDate (ex_booking 1 20 5 10 Confirmed) = on_day 10 \<and>
   map ce_date (calendar_of (house_details_get ex_get 0 (ex_db [ex_booking 1 20 5 10 Confirmed]))) ! 10
     = on_day 10 \<and>
   map ce_available (calendar_of (house_details_get ex_get 0 (ex_db [ex_booking 1 20 5 10 Confirmed]))) =
     [True, True, True, True, True, False, False, False, False, False, False, True, True, True, True,
      True, True, True, True, True, True, True, True, True, True, True, True, True, True, True]"
  by code_simp


text \<open>
  Claim C8, as the code has it. The GET that renders the calendar leaves the bookings and
  the users unchanged; in the houses it increments the view counter of the house asked for
  and appends one entry to its \<open>viewedBy\<close> list, and changes nothing else. The calendar
  depends on the bookings, the price of the house and the clock only: a second run at the
  same instant yields the same calendar.
\<close>

theorem calendar_read_effects:
  assumes "gr_houseId req = Some hid"
  shows "bookings (snd (house_details_get req now st)) = bookings st \<and>
         users (snd (house_details_get req now st)) = users st \<and>
         houses (snd (house_details_get req now st)) =
           findOneAndUpdate (\<lambda>h. h_id h = hid)
             (\<lambda>h. h\<lparr> h_views := h_views h + 1,
                      h_viewedBy := h_viewedBy h @
                        [\<lparr> v_userId = map_option userId (gr_token req), v_viewedAt = now,
                           v_userType = (case gr_token req of None \<Rightarrow> ''guest''
                                         | Some t \<Rightarrow> role t) \<rparr>] \<rparr>)
             (houses st) \<and>
         calendar_of (house_details_get req now (snd (house_details_get req now st))) =
           calendar_of (house_details_get req now st)"
proof -
  let ?p = "\<lambda>h. h_id h = hid"
  let ?f = "record_view (gr_token req) now"
  let ?hs = "findOneAndUpdate ?p ?f (houses st)"
  let ?st1 = "st\<lparr> houses := ?hs \<rparr>"
  have s1: "snd (house_details_get req now st) = ?st1"
    using assms by (simp add: house_details_get_def Let_def split: option.splits)
  have f1: "find ?p ?hs = map_option ?f (find ?p (houses st))"
    by (rule find_findOneAndUpdate) (simp add: record_view_fields)
  have f2: "find ?p (findOneAndUpdate ?p ?f ?hs) = map_option ?f (find ?p ?hs)"
    by (rule find_findOneAndUpdate) (simp add: record_view_fields)
  have c: "calendar_of (house_details_get req now ?st1) = calendar_of (house_details_get req now st)"
  proof (cases "find ?p (houses st)")
    case None
    then show ?thesis
      using assms f1 f2 by (simp add: calendar_of_def house_details_get_def Let_def)
  next
    case (Some h)
    then show ?thesis
      using assms f1 f2
      by (auto simp: calendar_of_def house_details_get_def Let_def record_view_fields)
  qed
  have h: "?f = (\<lambda>h. h\<lparr> h_views := h_views h + 1,
                      h_viewedBy := h_viewedBy h @
                        [\<lparr> v_userId = map_option userId (gr_token req), v_viewedAt = now,
                           v_userType = (case gr_token req of None \<Rightarrow> ''guest''
                                         | Some t \<Rightarrow> role t) \<rparr>] \<rparr>)"
    by (rule ext) (simp add: record_view_def)
  show ?thesis
    unfolding s1 using c h by simp
qed

theorem calendar_read_effects_witness:
  "gr_houseId ex_get = Some 1 \<and>
   bookings (snd (house_details_get ex_get 0 (ex_db [ex_booking 1 20 5 10 Confirmed]))) =
     [ex_booking 1 20 5 10 Confirmed] \<and>
   houses (snd (house_details_get ex_get 0 (ex_db [ex_booking 1 20 5 10 Confirmed]))) =
     [ex_house\<lparr> h_views := 1,
               h_viewedBy := [\<lparr> v_userId = None, v_viewedAt = 0, v_userType = ''guest'' \<rparr>] \<rparr>] \<and>
   calendar_of (house_details_get ex_get 0
       (snd (house_details_get ex_get 0 (ex_db [ex_booking 1 20 5 10 Confirmed])))) =
     calendar_of (house_details_get ex_get 0 (ex_db [ex_booking 1 20 5 10 Confirmed]))"
  using calendar_read_effects [of ex_get 1 0 "ex_db [ex_booking 1 20 5 10 Confirmed]"]
  by (simp add: ex_defs ex_get_def)

text \<open>Claim C8 as stated fails on the code: the GET changes the house record.\<close>

theorem calendar_read_counterexample:
  "houses (ex_db [ex_booking 1 20 5 10 Confirmed]) = [ex_house] \<and>
   h_views ex_house = 0 \<and>
   houses (snd (house_details_get ex_get 0 (ex_db [ex_booking 1 20 5 10 Confirmed]))) =
     [ex_house\<lparr> h_views := 1,
               h_viewedBy := [\<lparr> v_userId = None, v_viewedAt = 0, v_userType = ''guest'' \<rparr>] \<rparr>]"
  by (simp add: ex_defs ex_get_def house_details_get_def record_view_def Let_def)

section \<open>Creating a booking\<close>

lemma existingBooking_None_iff:
  "existingBooking hid cIn cOut bs = None \<longleftrightarrow>
     \<not> (\<exists>b \<in> set bs. houseId b = hid \<and>
            (status b = Pending \<or> status b = Confirmed \<or> status b = Active) \<and>
            checkInDate b \<le> cOut \<and> cIn \<le> checkOutDate b)"
  unfolding existingBooking_def find_None_iff by blast

lemma bookable_house_id: "bookable_house hid hs = Some h \<Longrightarrow> h_id h = hid"
  unfolding bookable_house_def by (drule find_SomeD) simp

text \<open>The two create handlers past their validation, for a computed check-out that is a
  valid date.\<close>

lemma booking_request_checked:
  assumes "cr_token creq = Some tok"
    and "role tok = ''renter''"
    and "cr_body creq = Some body"
    and "cb_houseId body = Some hid"
    and "cb_moveInDate body = Some checkIn"
    and "cb_duration body = Some duration"
    and "duration \<noteq> 0"
    and "bookable_house hid (houses st) = Some h"
    and "checkOut_of lib checkIn duration (cb_durationType body) = Some checkOut"
  shows "booking_request lib creq today now newId st =
     (if checkIn < today then (Inl PastDate, st)
      else case existingBooking hid checkIn checkOut (bookings st) of
             Some e \<Rightarrow> (Inl (DatesUnavailable (checkInDate e) (checkOutDate e)), st)
           | None \<Rightarrow>
               if userId tok \<notin> set (users st) then (Inl InternalError, st)
               else case insertOne (new_booking newId h (userId tok) checkIn checkOut now) (bookings st) of
                      None \<Rightarrow> (Inl InternalError, st)
                    | Some bs \<Rightarrow> (Inr (new_booking newId h (userId tok) checkIn checkOut now),
                                 st\<lparr> bookings := bs \<rparr>))"
  using assms by (simp add: booking_request_def bsonDate_def)

lemma renter_bookings_post_checked:
  assumes "ur_token ureq = Some tok"
    and "role tok = ''renter''"
    and "ur_body ureq = Some body"
    and "ub_houseId body = Some hid"
    and "ub_checkInDate body = Some checkIn"
    and "ub_checkOutDate body = Some checkOut"
    and "ub_guests body = Some guests"
    and "guests \<noteq> 0"
    and "bookable_house hid (houses st) = Some h"
  shows "renter_bookings_post ureq now newId st =
     (case existingBooking hid checkIn checkOut (bookings st) of
        Some e \<Rightarrow> (Inl (DatesUnavailable (checkInDate e) (checkOutDate e)), st)
      | None \<Rightarrow>
          (case insertOne (new_booking newId h (userId tok) checkIn checkOut now) (bookings st) of
             None \<Rightarrow> (Inl InternalError, st)
           | Some bs \<Rightarrow> (Inr (new_booking newId h (userId tok) checkIn checkOut now),
                        st\<lparr> bookings := bs \<rparr>)))"
  using assms by (simp add: renter_bookings_post_def)

lemma new_booking_fields:
  "b_id (new_booking newId h renter checkIn checkOut now) = newId"
  "houseId (new_booking newId h renter checkIn checkOut now) = h_id h"
  "renterId (new_booking newId h renter checkIn checkOut now) = renter"
  "checkInDate (new_booking newId h renter checkIn checkOut now) = checkIn"
  "checkOutDate (new_booking newId h renter checkIn checkOut now) = checkOut"
  "status (new_booking newId h renter checkIn checkOut now) = Pending"
  by (simp_all add: new_booking_def)

lemma insertOne_fresh:
  "newId \<notin> b_id ` set bs \<Longrightarrow>
   insertOne (new_booking newId h renter checkIn checkOut now) bs =
     Some (bs @ [new_booking newId h renter checkIn checkOut now])"
  by (simp add: insertOne_def new_booking_fields)

text \<open>
  Claim C9, as the code has it. Neither create handler compares check-in with check-out.
  A well-formed request of a renter for a bookable house, with valid dates (and with a
  non-zero duration, an existing renter and a fresh id in the first handler), succeeds if
  and only if the move-in date is not before today (first handler only) and no pending,
  confirmed or active booking of the house meets the requested dates under the
  closed-interval test. On success one pending booking with the requested dates is
  appended, whatever their order; on failure the store is unchanged.
\<close>

theorem create_without_range_check:
  assumes "cr_token creq = Some tok"
    and "role tok = ''renter''"
    and "cr_body creq = Some body"
    and "cb_houseId body = Some hid"
    and "cb_moveInDate body = Some checkIn"
    and "\<bar>checkIn\<bar> \<le> maxTime"
    and "cb_duration body = Some duration"
    and "duration \<noteq> 0"
    and "bookable_house hid (houses st) = Some h"
    and "userId tok \<in> set (users st)"
    and "newId \<notin> b_id ` set (bookings st)"
    and "checkOut_of lib checkIn duration (cb_durationType body) = Some checkOut"
    and "ur_token ureq = Some utok"
    and "role utok = ''renter''"
    and "ur_body ureq = Some ubody"
    and "ub_houseId ubody = Some uhid"
    and "ub_checkInDate ubody = Some uIn"
    and "\<bar>uIn\<bar> \<le> maxTime"
    and "ub_checkOutDate ubody = Some uOut"
    and "\<bar>uOut\<bar> \<le> maxTime"
    and "ub_guests ubody = Some guests"
    and "guests \<noteq> 0"
    and "bookable_house uhid (houses st) = Some uh"
  shows "(if today \<le> checkIn \<and>
             \<not> (\<exists>b \<in> set (bookings st). houseId b = hid \<and>
                   (status b = Pending \<or> status b = Confirmed \<or> status b = Active) \<and>
                   checkInDate b \<le> checkOut \<and> checkIn \<le> checkOutDate b)
          then \<exists>nb. booking_request lib creq today now newId st =
                       (Inr nb, st\<lparr> bookings := bookings st @ [nb] \<rparr>) \<and>
                     b_id nb = newId \<and> houseId nb = hid \<and> renterId nb = userId tok \<and>
                     checkInDate nb = checkIn \<and> checkOutDate nb = checkOut \<and> status nb = Pending
          else \<exists>e. booking_request lib creq today now newId st = (Inl e, st)) \<and>
         (if \<not> (\<exists>b \<in> set (bookings st). houseId b = uhid \<and>
                   (status b = Pending \<or> status b = Confirmed \<or> status b = Active) \<and>
                   checkInDate b \<le> uOut \<and> uIn \<le> checkOutDate b)
          then \<exists>nb. renter_bookings_post ureq now newId st =
                       (Inr nb, st\<lparr> bookings := bookings st @ [nb] \<rparr>) \<and>
                     b_id nb = newId \<and> houseId nb = uhid \<and> renterId nb = userId utok \<and>
                     checkInDate nb = uIn \<and> checkOutDate nb = uOut \<and> status nb = Pending
          else \<exists>e. renter_bookings_post ureq now newId st = (Inl e, st))"
proof -
  note r = booking_request_checked [OF assms(1-5,7-9,12), of today now newId]
  note u = renter_bookings_post_checked [OF assms(13-17,19,21-23), of now newId]
  note f = insertOne_fresh [OF assms(11)]
  note n = existingBooking_None_iff [of hid checkIn checkOut "bookings st"]
    existingBooking_None_iff [of uhid uIn uOut "bookings st"]
  note i = bookable_house_id [OF assms(9)] bookable_house_id [OF assms(23)]
  have 1: "(if today \<le> checkIn \<and>
             \<not> (\<exists>b \<in> set (bookings st). houseId b = hid \<and>
                   (status b = Pending \<or> status b = Confirmed \<or> status b = Active) \<and>
                   checkInDate b \<le> checkOut \<and> checkIn \<le> checkOutDate b)
          then \<exists>nb. booking_request lib creq today now newId st =
                       (Inr nb, st\<lparr> bookings := bookings st @ [nb] \<rparr>) \<and>
                     b_id nb = newId \<and> houseId nb = hid \<and> renterId nb = userId tok \<and>
                     checkInDate nb = checkIn \<and> checkOutDate nb = checkOut \<and> status nb = Pending
          else \<exists>e. booking_request lib creq today now newId st = (Inl e, st))"
  proof (cases "existingBooking hid checkIn checkOut (bookings st)")
    case None
    then show ?thesis
      unfolding r n [symmetric] using i assms(10) by (simp add: f new_booking_fields)
  next
    case (Some e)
    then show ?thesis
      unfolding r n [symmetric] by simp
  qed
  have 2: "(if \<not> (\<exists>b \<in> set (bookings st). houseId b = uhid \<and>
                   (status b = Pending \<or> status b = Confirmed \<or> status b = Active) \<and>
                   checkInDate b \<le> uOut \<and> uIn \<le> checkOutDate b)
          then \<exists>nb. renter_bookings_post ureq now newId st =
                       (Inr nb, st\<lparr> bookings := bookings st @ [nb] \<rparr>) \<and>
                     b_id nb = newId \<and> houseId nb = uhid \<and> renterId nb = userId utok \<and>
                     checkInDate nb = uIn \<and> checkOutDate nb = uOut \<and> status nb = Pending
          else \<exists>e. renter_bookings_post ureq now newId st = (Inl e, st))"
  proof (cases "existingBooking uhid uIn uOut (bookings st)")
    case None
    then show ?thesis
      unfolding u n [symmetric] using i by (simp add: f new_booking_fields)
  next
    case (Some e)
    then show ?thesis
      unfolding u n [symmetric] by simp
  qed
  from 1 2 show ?thesis by (rule conjI)
qed

theorem create_without_range_check_witness:
  "cr_token (ex_create (- 1)) = Some \<lparr> userId = 20, role = ''renter'' \<rparr> \<and>
   bookable_house 1 (houses (ex_db [])) = Some ex_house \<and>
   20 \<in> set (users (ex_db [])) \<and>
   1 \<notin> b_id ` set (bookings (ex_db [])) \<and>
   \<bar>on_day 10\<bar> \<le> maxTime \<and>
   checkOut_of ex_lib (on_day 10) (- 1) (Some ''days'') = Some (on_day 9) \<and>
   on_day 3 \<le> on_day 10 \<and> on_day 9 < on_day 10 \<and>
   (\<exists>nb. booking_request ex_lib (ex_create (- 1)) (on_day 3) (on_day 3) 1 (ex_db []) =
            (Inr nb, ex_db [nb]) \<and>
          checkInDate nb = on_day 10 \<and> checkOutDate nb = on_day 9 \<and> status nb = Pending) \<and>
   (\<exists>nb. renter_bookings_post (ex_post 10 10) (on_day 3) 1 (ex_db []) = (Inr nb, ex_db [nb]) \<and>
          checkInDate nb = on_day 10 \<and> checkOutDate nb = on_day 10 \<and> status nb = Pending)"
  using create_without_range_check [where creq = "ex_create (- 1)"
      and tok = "\<lparr> userId = 20, role = ''renter'' \<rparr>"
      and body = "\<lparr> cb_houseId = Some 1, cb_moveInDate = Some (on_day 10), cb_duration = Some (- 1),
         cb_durationType = Some ''days'' \<rparr>" and hid = 1 and checkIn = "on_day 10"
      and duration = "- 1" and st = "ex_db []" and h = ex_house and newId = 1
      and checkOut = "on_day 9" and lib = ex_lib and ureq = "ex_post 10 10"
      and utok = "\<lparr> userId = 20, role = ''renter'' \<rparr>"
      and ubody = "\<lparr> ub_houseId = Some 1, ub_checkInDate = Some (on_day 10),
         ub_checkOutDate = Some (on_day 10), ub_guests = Some 2 \<rparr>" and uhid = 1
      and uIn = "on_day 10" and uOut = "on_day 10" and guests = 2
      and uh = ex_house and today = "on_day 3" and now = "on_day 3"]
  by (simp add: ex_defs ex_create_def ex_post_def ex_lib_def checkOut_of_def setDate_def
        timeClip_def maxTime_def bookable_house_def)
    blast

text \<open>Claim C9 as stated fails on the code: a request for minus one day creates a booking
  that ends before it starts, and a request with equal dates creates a booking of length
  zero.\<close>

theorem create_without_range_check_counterexample:
  "booking_request ex_lib (ex_create (- 1)) (on_day 3) (on_day 3) 1 (ex_db []) =
     (Inr ((ex_booking 1 20 10 9 Pending) \<lparr> updatedAt := on_day 3 \<rparr>),
      ex_db [(ex_booking 1 20 10 9 Pending) \<lparr> updatedAt := on_day 3 \<rparr>]) \<and>
   renter_bookings_post (ex_post 10 10) (on_day 3) 1 (ex_db []) =
     (Inr ((ex_booking 1 20 10 10 Pending) \<lparr> updatedAt := on_day 3 \<rparr>),
      ex_db [(ex_booking 1 20 10 10 Pending) \<lparr> updatedAt := on_day 3 \<rparr>])"
  by (simp add: ex_defs create_defs)

text \<open>A duration of two hundred million days leaves the range of a date: the computed
  check-out is an Invalid Date.\<close>

lemma checkOut_of_leaves_range:
  "checkOut_of ex_lib (on_day 10) 200000000 (Some ''days'') = None"
  by (simp add: ex_defs create_defs)


section \<open>The overlap test at every call site\<close>













text \<open>The ranges have to be well-ordered: a pending booking from day 10 back to day 5
  touches the confirmed booking of days 8 to 10 and does not meet it under the closed
  test, so accepting it succeeds.\<close>

lemma inverted_range_is_accepted:
  "checkOutDate (ex_booking 1 20 8 10 Confirmed) = checkInDate (ex_booking 2 21 10 5 Pending) \<and>
   map status (bookings (snd (owner_bookings_put (ex_put 7 ''owner'' 2 ''accept'') 1 True
       (ex_db [ex_booking 1 20 8 10 Confirmed, ex_booking 2 21 10 5 Pending])))) =
     [Confirmed, Confirmed]"
  by (simp add: ex_defs put_defs)

end
